theory Spec2Isabelle
  imports Main
begin

section \<open>C string primitives used by cli.c\<close>

text \<open>
  C strings are modelled as \<^typ>\<open>string\<close> (the bytes before the terminating NUL) and a
  \<^verbatim>\<open>char *\<close> that may be \<^verbatim>\<open>NULL\<close> as \<^typ>\<open>string option\<close>.
\<close>

fun starts_with :: "string \<Rightarrow> string \<Rightarrow> bool" where
  "starts_with s [] = True"
| "starts_with [] (c # cs) = False"
| "starts_with (x # xs) (c # cs) = (x = c \<and> starts_with xs cs)"

text \<open>\<^verbatim>\<open>strstr\<close>: offset of the first occurrence of the substring, \<open>None\<close> for \<^verbatim>\<open>NULL\<close>.\<close>

fun strstr :: "string \<Rightarrow> string \<Rightarrow> nat option" where
  "strstr [] sub = (if sub = [] then Some 0 else None)"
| "strstr (c # cs) sub =
     (if starts_with (c # cs) sub then Some 0 else map_option Suc (strstr cs sub))"

text \<open>
  \<^verbatim>\<open>static int strpos(char *str, char *sub_str)\<close>:
  \<^verbatim>\<open>return sub_str_pos == NULL ? -1 : (sub_str_pos - str);\<close>
\<close>

definition strpos :: "string \<Rightarrow> string \<Rightarrow> int" where
  "strpos str sub_str = (case strstr str sub_str of None \<Rightarrow> - 1 | Some n \<Rightarrow> int n)"

text \<open>
  \<^verbatim>\<open>strrchr\<close>: the suffix that starts at the last occurrence of the character,
  \<open>None\<close> for \<^verbatim>\<open>NULL\<close>.
\<close>

fun strrchr :: "string \<Rightarrow> char \<Rightarrow> string option" where
  "strrchr [] c = None"
| "strrchr (x # xs) c =
     (case strrchr xs c of
        Some r \<Rightarrow> Some r
      | None \<Rightarrow> (if x = c then Some (x # xs) else None))"

text \<open>
  \<^verbatim>\<open>strtok\<close> keeps the rest of the string in hidden static storage; the model returns
  it beside the token: leading delimiters are skipped, \<open>None\<close> (\<^verbatim>\<open>NULL\<close>) when nothing
  is left, otherwise the token up to the next delimiter, which is overwritten by NUL, and
  the text after that delimiter for the next call \<^verbatim>\<open>strtok(NULL, delim)\<close>.
\<close>

definition strtok :: "string \<Rightarrow> string \<Rightarrow> (string \<times> string) option" where
  "strtok s delim =
     (let t = dropWhile (\<lambda>c. c \<in> set delim) s
      in if t = [] then None
         else Some (takeWhile (\<lambda>c. c \<notin> set delim) t,
                    drop 1 (dropWhile (\<lambda>c. c \<notin> set delim) t)))"

lemma strtok_shorter:
  assumes "strtok s delim = Some (t, rest)"
  shows "length rest < length s"
proof -
  define u where "u = dropWhile (\<lambda>c. c \<in> set delim) s"
  from assms have ne: "u \<noteq> []"
    and r: "rest = drop 1 (dropWhile (\<lambda>c. c \<notin> set delim) u)"
    unfolding strtok_def u_def [symmetric] Let_def by (simp_all split: if_splits)
  have "length (dropWhile (\<lambda>c. c \<notin> set delim) u) \<le> length u"
    by (rule length_dropWhile_le)
  with r ne have "length rest < length u"
    by (cases u) auto
  moreover have "length u \<le> length s"
    unfolding u_def by (rule length_dropWhile_le)
  ultimately show ?thesis by simp
qed

text \<open>
  The tokenizing loop of the source,
  \<^verbatim>\<open>tok[0] = strtok(str, d); while (tok[i] != NULL) { i++; tok[i] = strtok(NULL, d); }\<close>,
  as the list of the tokens it stores before the final \<^verbatim>\<open>NULL\<close>.
\<close>

function tokens_of :: "string \<Rightarrow> string \<Rightarrow> string list" where
  "tokens_of s delim =
     (case strtok s delim of
        None \<Rightarrow> []
      | Some (t, rest) \<Rightarrow> t # tokens_of rest delim)"
  by pat_completeness auto
termination
  by (relation "measure (\<lambda>(s, delim). length s)") (auto dest: strtok_shorter)

declare tokens_of.simps [simp del]


text \<open>
  \<^verbatim>\<open>temp = strrchr(line, c); if (temp) *temp = '\0';\<close>: the string is cut at the last
  occurrence of the character.
\<close>

definition chop_at :: "char \<Rightarrow> string \<Rightarrow> string" where
  "chop_at c s = (case strrchr s c of None \<Rightarrow> s | Some r \<Rightarrow> take (length s - length r) s)"

abbreviation newline :: char where
  "newline \<equiv> CHR 0x0A"

abbreviation carriage_return :: char where
  "carriage_return \<equiv> CHR 0x0D"

text \<open>
  \<^verbatim>\<open>fgets(buf, size, file)\<close> on the unread rest of a file: at most one byte less than the size, up to
  and including the first newline; \<open>None\<close> (\<^verbatim>\<open>NULL\<close>) at end of file. The source calls it
  with the sizes \<^verbatim>\<open>sizeof(line)\<close> (65536) and \<^verbatim>\<open>BUFSIZ\<close> only; a size below 2 is not
  modelled and gives \<open>None\<close>.
\<close>

fun fgets_split :: "nat \<Rightarrow> string \<Rightarrow> string \<times> string" where
  "fgets_split 0 s = ([], s)"
| "fgets_split (Suc n) [] = ([], [])"
| "fgets_split (Suc n) (c # cs) =
     (if c = newline then ([c], cs)
      else (case fgets_split n cs of (l, r) \<Rightarrow> (c # l, r)))"

definition fgets :: "nat \<Rightarrow> string \<Rightarrow> (string \<times> string) option" where
  "fgets sz s = (if s = [] \<or> sz < 2 then None else Some (fgets_split (sz - 1) s))"

lemma fgets_split_length: "length (fst (fgets_split n s)) + length (snd (fgets_split n s)) = length s"
  by (induction n s rule: fgets_split.induct) (auto split: prod.splits)

lemma fgets_split_progress: "s \<noteq> [] \<Longrightarrow> fst (fgets_split (Suc n) s) \<noteq> []"
  by (cases s) (auto split: prod.splits)

lemma fgets_shorter:
  assumes "fgets sz s = Some (l, rest)"
  shows "length rest < length s"
proof -
  from assms have ne: "s \<noteq> []" and big: "2 \<le> sz"
    and eq: "fgets_split (sz - 1) s = (l, rest)"
    by (auto simp: fgets_def split: if_splits)
  from big obtain n where n: "sz - 1 = Suc n"
    by (cases "sz - 1") auto
  from fgets_split_progress [OF ne, of n] eq n have "l \<noteq> []" by simp
  moreover from fgets_split_length [of "sz - 1" s] eq
  have "length l + length rest = length s" by simp
  ultimately show ?thesis by (cases l) auto
qed

text \<open>The successive results of \<^verbatim>\<open>fgets\<close> on a file until it returns \<^verbatim>\<open>NULL\<close>.\<close>

function read_lines :: "nat \<Rightarrow> string \<Rightarrow> string list" where
  "read_lines sz s =
     (case fgets sz s of
        None \<Rightarrow> []
      | Some (l, rest) \<Rightarrow> l # read_lines sz rest)"
  by pat_completeness auto
termination
  by (relation "measure (\<lambda>(sz, s). length s)") (auto dest: fgets_shorter)

declare read_lines.simps [simp del]

text \<open>
  \<^verbatim>\<open>atoi\<close>: white space, an optional sign, decimal digits. C leaves the result
  undefined when the number does not fit an \<^verbatim>\<open>int\<close>; the GNU C library computes
  \<^verbatim>\<open>(int) strtol(s, NULL, 10)\<close>, that is, the number is first brought into the range
  of a 64-bit \<^verbatim>\<open>long\<close> (the nearest bound when it lies outside) and then cut to its low
  32 bits, read as a signed number. The model follows that library.
\<close>

definition isspace :: "char \<Rightarrow> bool" where
  "isspace c = (c \<in> set [CHR '' '', CHR 0x09, CHR 0x0A, CHR 0x0B, CHR 0x0C, CHR 0x0D])"

definition digit_of :: "char \<Rightarrow> nat option" where
  "digit_of c =
     (let n = of_char c :: nat in if 48 \<le> n \<and> n \<le> 57 then Some (n - 48) else None)"

fun atoi_digits :: "int \<Rightarrow> string \<Rightarrow> int" where
  "atoi_digits acc [] = acc"
| "atoi_digits acc (c # cs) =
     (case digit_of c of None \<Rightarrow> acc | Some d \<Rightarrow> atoi_digits (10 * acc + int d) cs)"

definition strtol :: "string \<Rightarrow> int" where
  "strtol s =
     (let v = (case dropWhile isspace s of
                 [] \<Rightarrow> 0
               | c # cs \<Rightarrow>
                   (if c = CHR ''-'' then - atoi_digits 0 cs
                    else if c = CHR ''+'' then atoi_digits 0 cs
                    else atoi_digits 0 (c # cs)))
      in if v < - 9223372036854775808 then - 9223372036854775808
         else if 9223372036854775807 < v then 9223372036854775807
         else v)"

definition atoi :: "string \<Rightarrow> int" where
  "atoi s = (strtol s + 2147483648) mod 4294967296 - 2147483648"

section \<open>Leaves of cli.c: file name, tokenizer, console input\<close>

text \<open>
  \<^verbatim>\<open>get_filename_separator\<close> (the branch compiled when \<^verbatim>\<open>_WIN32\<close> is not defined):
  \<^verbatim>\<open>file_name = strrchr(file_path, '/'); if (!file_name && file_path) file_name = file_path;
  ... if (file_name[0] == '/') file_name++;\<close>.
  The argument is a non-\<^verbatim>\<open>NULL\<close> string; callers decide what a \<^verbatim>\<open>NULL\<close> path does.
\<close>

definition get_filename_separator :: "string \<Rightarrow> string" where
  "get_filename_separator file_path =
     (case strrchr file_path (CHR ''/'') of
        None \<Rightarrow> file_path
      | Some file_name \<Rightarrow>
          (case file_name of
             [] \<Rightarrow> file_name
           | c # r \<Rightarrow> if c = CHR ''/'' then r else file_name))"

datatype msg =
    Invalid_command_entry int
  | Invalid_file_path string
  | Upload_failure int
  | Upload_success
  | Download_failure int
  | Unable_to_decrypt
  | Download_success
  | File_already_exists string
  | Overwrite_prompt string
  | Canceled_overwriting string
  | Unable_to_open string
  | Bucket_id_does_not_exist
  | Bucket_id_is_invalid
  | Invalid_user_credentials
  | Request_failed int
  | No_files_for_bucket
  | Unable_to_create_download_list
  | File_listing string string
  | List_file_deleted
  | No_buckets
  | Bucket_listing string string
  | Invalid_curr_cmd_req string
  | Invalid_bucket_name
  | Target_file_index nat string
  | Target_file_name string
  | Uploading_file string
  | Done_uploading_files
  | Downloading_file int int string
  | Done_downloading_files
  | Invalid_filename
  | Invalid_upload_target_filename
  | Invalid_command
  | Missing_arguments
  | Target_is_not_a_directory string
  | File_kind_other
  | Valid_dst_filename_missing

text \<open>
  \<^verbatim>\<open>validate_cmd_tokenize(cmd_str, str_token)\<close>. The result is the returned \<^verbatim>\<open>int\<close>, the
  tokens stored into \<^verbatim>\<open>str_token\<close> (the caller has zeroed the array, so every later entry
  is \<^verbatim>\<open>NULL\<close>) and what was printed. \<open>cap\<close> is the number of elements of the caller's
  array: the loop also stores the final \<^verbatim>\<open>NULL\<close>, one entry past the last token, and
  a store outside the array is reported as \<open>Token_overrun\<close>.
\<close>

datatype tokenized = Token_overrun | Tokenized int "string list" "msg list"

definition validate_cmd_tokenize :: "nat \<Rightarrow> string \<Rightarrow> tokenized" where
  "validate_cmd_tokenize cap cmd_str =
     (let ret = strpos cmd_str ''storj://'';
          out = (if ret = - 1 then [Invalid_command_entry ret] else [])
      in if ret = 0 then
           (let toks = tokens_of cmd_str ''/''
            in if cap \<le> length toks then Token_overrun
               else Tokenized (int (length toks)) toks out)
         else Tokenized ret [] out)"

text \<open>\<^verbatim>\<open>token[k]\<close> of a zeroed array after the tokenizer has run.\<close>

definition token_at :: "string list \<Rightarrow> nat \<Rightarrow> string option" where
  "token_at toks k = (if k < length toks then Some (toks ! k) else None)"

text \<open>
  \<^verbatim>\<open>get_input\<close> on one line delivered by \<^verbatim>\<open>fgets(line, BUFSIZ, stdin)\<close>: the line is cut
  at its last newline and then at its last carriage return.
\<close>

definition get_input :: "string \<Rightarrow> string" where
  "get_input line = chop_at carriage_return (chop_at newline line)"


section \<open>Orchestration state and the world around it\<close>

text \<open>
  \<^verbatim>\<open>cli_state_t\<close>. The fields \<^verbatim>\<open>env\<close>, \<^verbatim>\<open>file_fd\<close>, \<^verbatim>\<open>cmd_resp\<close>, \<^verbatim>\<open>file_xfer_stat\<close> and
  \<^verbatim>\<open>handle\<close> are never read by the functions modelled here and are left out. The two
  counters are C \<^verbatim>\<open>int\<close>s; they are modelled in \<^typ>\<open>int\<close> (they stay far below
  \<open>2 ^ 31\<close> wherever the list buffer does not overrun first).
\<close>

record cli_state_t =
  bucket_name :: "string option"
  bucket_id :: "string option"
  file_name :: "string option"
  file_path :: "string option"
  file_id :: "string option"
  total_files :: int
  curr_up_file :: int
  curr_cmd_req :: "string option"
  next_cmd_req :: "string option"

text \<open>\<^verbatim>\<open>storj_upload_opts_t\<close> as \<^verbatim>\<open>upload_file\<close> fills it; \<open>opts_fd\<close> says whether \<^verbatim>\<open>fd\<close> is open.\<close>

record storj_upload_opts_t =
  prepare_frame_limit :: int
  push_frame_limit :: int
  push_shard_limit :: int
  rs :: bool
  opts_bucket_id :: "string option"
  opts_file_name :: string
  opts_fd :: bool

text \<open>The fields of \<^verbatim>\<open>storj_bucket_meta_t\<close> and \<^verbatim>\<open>storj_file_meta_t\<close> that decide control flow.\<close>

datatype storj_bucket_meta_t = Bucket_meta (bucket_meta_id: string) (bucket_meta_name: string)

datatype storj_file_meta_t = File_meta (file_meta_id: string) (file_meta_filename: string)

text \<open>
  Effects in program order. \<open>Enter_upload_file\<close> and \<open>Enter_download_file\<close> mark a call of the
  transfer executor with its arguments (bucket id, path; bucket id, file id, path); the
  \<open>Bridge_\<close> effects are calls into the bridge library. The transfer states the bridge
  hands out are numbered in the order in which it creates them, from 0; a cancel call
  carries the number of the state it is given.
\<close>

datatype effect =
    Printf msg
  | Perror string
  | Bridge_get_buckets
  | Bridge_list_files "string option"
  | Bridge_store_file storj_upload_opts_t
  | Bridge_resolve_file "string option" "string option" "string option"
  | Bridge_store_file_cancel nat
  | Bridge_resolve_file_cancel nat
  | Enter_upload_file "string option" "string option"
  | Enter_download_file "string option" "string option" "string option"

datatype fnode = Regular string | Directory

datatype bridge_op = Get_buckets_op | List_files_op | Store_file_op | Resolve_file_op

text \<open>
  A \<^verbatim>\<open>uv_signal_t\<close> started for \<^verbatim>\<open>SIGINT\<close>: the handler it was started with and its
  \<^verbatim>\<open>data\<close> field, the transfer state to cancel. The executor assigns \<^verbatim>\<open>data\<close> only
  after the bridge has returned a state; until then the field holds what \<^verbatim>\<open>malloc\<close>
  left there (\<open>None\<close>).
\<close>

datatype sig_handle = Upload_signal "nat option" | Download_signal "nat option"

text \<open>
  How the process stands: running, ended by \<^verbatim>\<open>exit(n)\<close>, in undefined behaviour
  (a \<^verbatim>\<open>NULL\<close> pointer passed to a string function, a store outside a fixed-size buffer,
  a read of an uninitialised pointer), or never leaving the overwrite prompt because the
  console is at end of file.
\<close>

datatype proc_status = Running | Exited int | Undefined_behaviour | Blocked_on_input

text \<open>
  The world: the orchestration state, the files (paths are compared as written, devices and
  links are not modelled), the paths \<^verbatim>\<open>fopen\<close> cannot create, the console lines still to
  come, the environment variables, whether \<^verbatim>\<open>malloc\<close> of the signal handle succeeds, what
  the bridge returns for a transfer (\<open>None\<close> for a \<^verbatim>\<open>NULL\<close> state, otherwise the state's
  \<^verbatim>\<open>error_status\<close>), the value of \<^verbatim>\<open>STORJ_FILE_DECRYPTION_ERROR\<close> (declared in storj.h),
  the bridge operations whose completion callback is still to come, the signal handles
  that are started (in the order in which they were started), the number of transfer
  states the bridge has created, the effects so far, and the process status.
\<close>

record world =
  cli :: cli_state_t
  fs :: "string \<rightharpoonup> fnode"
  unwritable :: "string list"
  stdin_lines :: "string list"
  environ :: "string \<rightharpoonup> string"
  sig_malloc_ok :: bool
  bridge_handle :: "int option"
  decryption_error_code :: int
  pending :: "bridge_op list"
  sig_handles :: "sig_handle list"
  transfer_states :: nat
  effects :: "effect list"
  proc :: proc_status

definition emit :: "effect \<Rightarrow> world \<Rightarrow> world" where
  "emit e w = w\<lparr>effects := effects w @ [e]\<rparr>"

definition emits :: "effect list \<Rightarrow> world \<Rightarrow> world" where
  "emits es w = w\<lparr>effects := effects w @ es\<rparr>"

definition exit_with :: "int \<Rightarrow> world \<Rightarrow> world" where
  "exit_with n w = w\<lparr>proc := Exited n\<rparr>"

definition undefined_behaviour :: "world \<Rightarrow> world" where
  "undefined_behaviour w = w\<lparr>proc := Undefined_behaviour\<rparr>"

abbreviation (input) CLI_NO_SUCH_FILE_OR_DIR :: int where "CLI_NO_SUCH_FILE_OR_DIR \<equiv> 0"
abbreviation (input) CLI_VALID_REGULAR_FILE :: int where "CLI_VALID_REGULAR_FILE \<equiv> 1"
abbreviation (input) CLI_VALID_DIR :: int where "CLI_VALID_DIR \<equiv> 2"
abbreviation (input) CLI_UNKNOWN_FILE_ATTR :: int where "CLI_UNKNOWN_FILE_ATTR \<equiv> 3"
abbreviation (input) CLI_UPLOAD_FILE_LOG_ERR :: int where "CLI_UPLOAD_FILE_LOG_ERR \<equiv> 4"

text \<open>\<^verbatim>\<open>check_file_path\<close>: \<^verbatim>\<open>stat\<close>, then the switch on the file type.\<close>

definition check_file_path :: "string \<Rightarrow> world \<Rightarrow> int \<times> world" where
  "check_file_path p w =
     (case fs w p of
        None \<Rightarrow> (CLI_NO_SUCH_FILE_OR_DIR, emit (Perror ''stat'') w)
      | Some Directory \<Rightarrow> (CLI_VALID_DIR, w)
      | Some (Regular c) \<Rightarrow> (CLI_VALID_REGULAR_FILE, w))"

text \<open>
  \<^verbatim>\<open>fopen(p, "r")\<close>: the bytes to be read, \<open>None\<close> for \<^verbatim>\<open>NULL\<close>. A \<^verbatim>\<open>NULL\<close> path
  opens nothing; a directory opens, and every read from it fails.
\<close>

definition fopen_r :: "string option \<Rightarrow> world \<Rightarrow> string option" where
  "fopen_r p w =
     (case p of
        None \<Rightarrow> None
      | Some q \<Rightarrow>
          (case fs w q of
             None \<Rightarrow> None
           | Some Directory \<Rightarrow> Some []
           | Some (Regular c) \<Rightarrow> Some c))"

text \<open>\<^verbatim>\<open>fopen(p, "w")\<close> and \<^verbatim>\<open>fopen(p, "w+")\<close>: whether the file can be created or truncated.\<close>

definition can_create :: "string \<Rightarrow> world \<Rightarrow> bool" where
  "can_create p w = (p \<notin> set (unwritable w) \<and> fs w p \<noteq> Some Directory)"

definition truncate_file :: "string \<Rightarrow> world \<Rightarrow> world" where
  "truncate_file p w = w\<lparr>fs := (fs w)(p \<mapsto> Regular [])\<rparr>"

text \<open>\<^verbatim>\<open>fprintf\<close> to an open file: nothing reaches the directory once the name is removed.\<close>

definition append_file :: "string \<Rightarrow> string \<Rightarrow> world \<Rightarrow> world" where
  "append_file p s w =
     (case fs w p of
        Some (Regular c) \<Rightarrow> w\<lparr>fs := (fs w)(p \<mapsto> Regular (c @ s))\<rparr>
      | _ \<Rightarrow> w)"

text \<open>\<^verbatim>\<open>unlink\<close> and \<^verbatim>\<open>remove\<close> of a path; a directory stays.\<close>

definition unlink :: "string \<Rightarrow> world \<Rightarrow> world" where
  "unlink p w = (if fs w p = Some Directory then w else w\<lparr>fs := (fs w)(p := None)\<rparr>)"

abbreviation dwnld_list :: string where
  "dwnld_list \<equiv> ''dwnld_list.txt''"

text \<open>
  \<^verbatim>\<open>char line[256][256]\<close> with \<^verbatim>\<open>fgets(line[i], sizeof(line), file)\<close>: the line read
  into row \<open>i\<close> (with its newline, and the NUL after it) stays inside the array.
\<close>

definition line_fits :: "nat \<Rightarrow> string \<Rightarrow> bool" where
  "line_fits i l = (256 * i + length l + 1 \<le> 65536)"

text \<open>
  The read loop of \<^verbatim>\<open>queue_next_cli_cmd\<close> (the same in both branches):
  \<^verbatim>\<open>while (fgets(line[i], sizeof(line), file) != NULL) { cut the newline; i++;
  if (i >= cli_state->curr_up_file) break; }\<close>.
  The result is the lines read, each cut at its newline, in order (so \<open>i\<close> is their
  number and the last one is \<^verbatim>\<open>line[i-1]\<close>); \<open>None\<close> when a line is stored outside the array.
\<close>

fun read_list_lines :: "int \<Rightarrow> nat \<Rightarrow> string list \<Rightarrow> string list option" where
  "read_list_lines cur i [] = Some []"
| "read_list_lines cur i (l # ls) =
     (if \<not> line_fits i l then None
      else if cur \<le> int (Suc i) then Some [chop_at newline l]
      else map_option ((#) (chop_at newline l)) (read_list_lines cur (Suc i) ls))"

text \<open>
  The counting loop of \<^verbatim>\<open>cli_upload_file\<close>:
  \<^verbatim>\<open>while (fgets(line[i], sizeof(line), file) != NULL) { i++; }\<close>.
\<close>

fun count_list_lines :: "nat \<Rightarrow> string list \<Rightarrow> nat option" where
  "count_list_lines i [] = Some i"
| "count_list_lines i (l # ls) =
     (if \<not> line_fits i l then None else count_list_lines (Suc i) ls)"


section \<open>The transfer executor\<close>

definition bridge_get_buckets :: "world \<Rightarrow> world" where
  "bridge_get_buckets w = (emit Bridge_get_buckets w)\<lparr>pending := pending w @ [Get_buckets_op]\<rparr>"

definition bridge_list_files :: "string option \<Rightarrow> world \<Rightarrow> world" where
  "bridge_list_files bid w = (emit (Bridge_list_files bid) w)\<lparr>pending := pending w @ [List_files_op]\<rparr>"

text \<open>
  \<^verbatim>\<open>upload_file(env, bucket_id, file_path, handle)\<close>. A \<^verbatim>\<open>NULL\<close> path reaches
  \<^verbatim>\<open>fopen\<close> and \<^verbatim>\<open>strrchr\<close>. The progress callback only draws the bar and is left out.
  Every call that gets its \<^verbatim>\<open>uv_signal_t\<close> starts it for \<^verbatim>\<open>SIGINT\<close> before the bridge is
  called; \<^verbatim>\<open>sig->data = state\<close> follows only when the bridge returned a state, and then
  the store operation is pending.
\<close>

definition upload_file :: "string option \<Rightarrow> string option \<Rightarrow> world \<Rightarrow> int \<times> world" where
  "upload_file bid fpath w0 =
     (let w = emit (Enter_upload_file bid fpath) w0 in
      case fpath of
        None \<Rightarrow> (1, undefined_behaviour w)
      | Some p \<Rightarrow>
          (let fd = fopen_r (Some p) w;
               w1 = (if fd = None then emit (Printf (Invalid_file_path p)) w else w);
               upload_opts = \<lparr>
                 prepare_frame_limit =
                   (case environ w ''STORJ_PREPARE_FRAME_LIMIT'' of Some v \<Rightarrow> atoi v | None \<Rightarrow> 1),
                 push_frame_limit =
                   (case environ w ''STORJ_PUSH_FRAME_LIMIT'' of Some v \<Rightarrow> atoi v | None \<Rightarrow> 64),
                 push_shard_limit =
                   (case environ w ''STORJ_PUSH_SHARD_LIMIT'' of Some v \<Rightarrow> atoi v | None \<Rightarrow> 64),
                 rs =
                   (case environ w ''STORJ_REED_SOLOMON'' of
                      None \<Rightarrow> True
                    | Some v \<Rightarrow> (if v = ''false'' then False else True)),
                 opts_bucket_id = bid,
                 opts_file_name = get_filename_separator p,
                 opts_fd = (fd \<noteq> None) \<rparr>
           in if \<not> sig_malloc_ok w1 then (1, w1)
              else (case bridge_handle w1 of
                      None \<Rightarrow>
                        (1, (emit (Bridge_store_file upload_opts) w1)
                              \<lparr>sig_handles := sig_handles w1 @ [Upload_signal None]\<rparr>)
                    | Some e \<Rightarrow>
                        (e, (emit (Bridge_store_file upload_opts) w1)
                              \<lparr>pending := pending w1 @ [Store_file_op],
                               sig_handles := sig_handles w1
                                                @ [Upload_signal (Some (transfer_states w1))],
                               transfer_states := Suc (transfer_states w1)\<rparr>))))"

text \<open>
  The prompt loop of \<^verbatim>\<open>download_file\<close>:
  \<^verbatim>\<open>while (strcmp(user_input, "y") != 0 && strcmp(user_input, "n") != 0) { prompt; get_input }\<close>.
  The result is the answer, the console lines left and the number of prompts; \<open>None\<close> when
  the console ends first (\<^verbatim>\<open>get_input\<close> then yields the empty string for ever).
\<close>

fun overwrite_loop :: "string list \<Rightarrow> nat \<Rightarrow> (string \<times> string list \<times> nat) option" where
  "overwrite_loop [] n = None"
| "overwrite_loop (l # ls) n =
     (if get_input l = ''y'' \<or> get_input l = ''n'' then Some (get_input l, ls, Suc n)
      else overwrite_loop ls (Suc n))"

text \<open>
  The tail of \<^verbatim>\<open>download_file\<close> from \<^verbatim>\<open>if (fd == NULL)\<close> on; \<open>dest\<close> is \<open>None\<close> for
  stdout. The signal handle is started before the bridge is called and gets its
  \<^verbatim>\<open>data\<close> when the bridge returned a state.
\<close>

definition download_resolve ::
  "string option \<Rightarrow> string option \<Rightarrow> string option \<Rightarrow> bool \<Rightarrow> world \<Rightarrow> int \<times> world" where
  "download_resolve bid fid dest fd_open w =
     (if \<not> fd_open then (1, emit (Printf (Unable_to_open (case dest of Some p \<Rightarrow> p | None \<Rightarrow> []))) w)
      else if \<not> sig_malloc_ok w then (1, undefined_behaviour w)
      else (case bridge_handle w of
              None \<Rightarrow>
                (1, (emit (Bridge_resolve_file bid fid dest) w)
                      \<lparr>sig_handles := sig_handles w @ [Download_signal None]\<rparr>)
            | Some e \<Rightarrow>
                (e, (emit (Bridge_resolve_file bid fid dest) w)
                      \<lparr>pending := pending w @ [Resolve_file_op],
                       sig_handles := sig_handles w
                                        @ [Download_signal (Some (transfer_states w))],
                       transfer_states := Suc (transfer_states w)\<rparr>)))"

text \<open>
  \<^verbatim>\<open>download_file(env, bucket_id, file_id, path, handle)\<close>. The \<^verbatim>\<open>malloc\<close> of the signal
  handle is not checked there, so its failure is undefined behaviour.
\<close>

definition download_file ::
  "string option \<Rightarrow> string option \<Rightarrow> string option \<Rightarrow> world \<Rightarrow> int \<times> world" where
  "download_file bid fid dpath w0 =
     (let w = emit (Enter_download_file bid fid dpath) w0 in
      case dpath of
        None \<Rightarrow> download_resolve bid fid None True w
      | Some p \<Rightarrow>
          (if fs w p \<noteq> None then
             (let w1 = emit (Printf (File_already_exists p)) w in
              case overwrite_loop (stdin_lines w1) 0 of
                None \<Rightarrow> (1, w1\<lparr>stdin_lines := [], proc := Blocked_on_input\<rparr>)
              | Some (answer, rest, n) \<Rightarrow>
                  (let w2 = emits (replicate n (Printf (Overwrite_prompt p)))
                              (w1\<lparr>stdin_lines := rest\<rparr>)
                   in if answer = ''n'' then (1, emit (Printf (Canceled_overwriting p)) w2)
                      else (let w3 = unlink p w2
                            in if can_create p w3
                               then download_resolve bid fid (Some p) True (truncate_file p w3)
                               else download_resolve bid fid (Some p) False w3)))
           else if can_create p w
                then download_resolve bid fid (Some p) True (truncate_file p w)
                else download_resolve bid fid (Some p) False w))"

section \<open>The queue manager\<close>

text \<open>
  The \<^verbatim>\<open>download-file-1\<close> part of \<^verbatim>\<open>queue_next_cli_cmd\<close>. With the list file open:
  the read loop; \<^verbatim>\<open>strtok(temp, ":")\<close> into \<^verbatim>\<open>char *token[10]\<close> (\<^verbatim>\<open>temp\<close> is not
  initialised when no line was read); then either the next item, whose path is built
  in \<^verbatim>\<open>char temp_path[1024]\<close> by \<^verbatim>\<open>strcpy\<close> and \<^verbatim>\<open>strcat\<close>, or \<^verbatim>\<open>exit(0)\<close>.
  Without the list file: the single file named by the state. The value returned by
  \<^verbatim>\<open>download_file\<close> is dropped, as in the source.
\<close>

definition queue_download :: "world \<Rightarrow> world" where
  "queue_download w =
     (let cs = cli w in
      case fopen_r (Some dwnld_list) w of
        None \<Rightarrow> snd (download_file (bucket_id cs) (file_id cs) (file_path cs) w)
      | Some content \<Rightarrow>
          (case read_list_lines (curr_up_file cs) 0 (read_lines 65536 content) of
             None \<Rightarrow> undefined_behaviour w
           | Some ls \<Rightarrow>
               if ls = [] then undefined_behaviour w
               else
                 (let toks = tokens_of (last ls) '':'' in
                  if 10 \<le> length toks then undefined_behaviour w
                  else if curr_up_file cs \<le> total_files cs then
                    (case (file_path cs, token_at toks 1) of
                       (Some fp, Some name) \<Rightarrow>
                         if 1024 \<le> length fp + length name then undefined_behaviour w
                         else
                           (let temp_path = fp @ name;
                                w1 = w\<lparr>cli := cs\<lparr>file_id := token_at toks 0\<rparr>\<rparr>;
                                w2 = emit (Printf (Downloading_file (curr_up_file cs)
                                                     (total_files cs) temp_path)) w1;
                                w3 = w2\<lparr>cli := (cli w2)\<lparr>curr_up_file := curr_up_file cs + 1\<rparr>\<rparr>
                            in snd (download_file (bucket_id (cli w3)) (file_id (cli w3))
                                      (Some temp_path) w3))
                     | _ \<Rightarrow> undefined_behaviour w)
                  else exit_with 0 (emit (Printf Done_downloading_files) w))))"

text \<open>
  The \<^verbatim>\<open>upload-file-1\<close> part. With the list file open: the read loop, which also sets
  \<^verbatim>\<open>cli_state->file_path = line[i]\<close> and prints every line it reads; then either
  \<^verbatim>\<open>upload_file\<close> on that path followed by \<^verbatim>\<open>curr_up_file++\<close>, or \<^verbatim>\<open>exit(0)\<close>. The
  \<^verbatim>\<open>printf\<close> before the upload reads \<^verbatim>\<open>line[i-1]\<close>, which lies before the array when
  no line was read. Without a list file: the single path held by the state.
\<close>

definition queue_upload :: "world \<Rightarrow> world" where
  "queue_upload w =
     (let cs = cli w in
      case fopen_r (file_name cs) w of
        None \<Rightarrow> snd (upload_file (bucket_id cs) (file_path cs) w)
      | Some content \<Rightarrow>
          (case read_list_lines (curr_up_file cs) 0 (read_lines 65536 content) of
             None \<Rightarrow> undefined_behaviour w
           | Some ls \<Rightarrow>
               (let w1 = w\<lparr>cli := cs\<lparr>file_path :=
                              (if ls = [] then file_path cs else Some (last ls))\<rparr>\<rparr>;
                    w2 = emits (map (\<lambda>(k, l). Printf (Target_file_index k l))
                                  (zip [1 ..< Suc (length ls)] ls)) w1
                in if curr_up_file cs \<le> total_files cs then
                     (if ls = [] then undefined_behaviour w2
                      else
                        (let w3 = emit (Printf (Uploading_file (last ls))) w2;
                             w4 = snd (upload_file (bucket_id (cli w3)) (file_path (cli w3)) w3)
                         in if proc w4 = Running
                            then w4\<lparr>cli := (cli w4)\<lparr>curr_up_file := curr_up_file cs + 1\<rparr>\<rparr>
                            else w4))
                   else exit_with 0 (emit (Printf Done_uploading_files) w2))))"

text \<open>
  \<^verbatim>\<open>queue_next_cli_cmd\<close>. The conditions are evaluated in the order of the source, so
  \<^verbatim>\<open>strcmp\<close> meets a \<^verbatim>\<open>NULL\<close> \<^verbatim>\<open>next_cmd_req\<close> only when the current command is one of
  the three it knows. The bridge calls are asynchronous: the state is not changed
  between the two inner \<^verbatim>\<open>if\<close>s.
\<close>

definition queue_next_cli_cmd :: "world \<Rightarrow> world" where
  "queue_next_cli_cmd w =
     (case curr_cmd_req (cli w) of
        None \<Rightarrow> undefined_behaviour w
      | Some cmd \<Rightarrow>
          if cmd = ''list-files'' \<or> cmd = ''download-file'' then
            (case next_cmd_req (cli w) of
               None \<Rightarrow> undefined_behaviour w
             | Some nxt \<Rightarrow>
                 if nxt = ''list-files-1'' \<or> nxt = ''download-file-1'' then
                   (let w1 = (if nxt = ''list-files-1''
                              then bridge_list_files (bucket_id (cli w)) w else w)
                    in if nxt = ''download-file-1'' then queue_download w1 else w1)
                 else w)
          else if cmd = ''upload-file'' then
            (case next_cmd_req (cli w) of
               None \<Rightarrow> undefined_behaviour w
             | Some nxt \<Rightarrow> if nxt = ''upload-file-1'' then queue_upload w else w)
          else w)"


section \<open>Completion callbacks and signal handlers\<close>

text \<open>
  \<^verbatim>\<open>upload_file_complete(status, file, handle)\<close>: the \<^verbatim>\<open>exit(status)\<close> after the failure
  message is commented out in the source, and the success line is printed for every status.
  The bridge is taken to pass a valid \<^verbatim>\<open>file\<close>.
\<close>

definition upload_file_complete :: "int \<Rightarrow> world \<Rightarrow> world" where
  "upload_file_complete status w =
     (let w1 = (if status \<noteq> 0 then emit (Printf (Upload_failure status)) w else w);
          w2 = emit (Printf Upload_success) w1
      in if total_files (cli w2) = 0 \<and> curr_up_file (cli w2) = 0 then exit_with 0 w2
         else queue_next_cli_cmd w2)"

text \<open>\<^verbatim>\<open>download_file_complete(status, fd, handle)\<close>; here too \<^verbatim>\<open>exit(status)\<close> is commented out.\<close>

definition download_file_complete :: "int \<Rightarrow> world \<Rightarrow> world" where
  "download_file_complete status w =
     (let w1 = (if status \<noteq> 0 then
                  (if status = decryption_error_code w then emit (Printf Unable_to_decrypt) w
                   else emit (Printf (Download_failure status)) w)
                else emit (Printf Download_success) w)
      in if total_files (cli w1) = 0 then exit_with 0 w1
         else queue_next_cli_cmd w1)"

text \<open>
  \<^verbatim>\<open>upload_signal_handler(req, signum)\<close> and \<^verbatim>\<open>download_signal_handler(req, signum)\<close>:
  the cancel call of the bridge on \<^verbatim>\<open>req->data\<close>, then the handle \<^verbatim>\<open>req\<close> is stopped
  and closed (\<^verbatim>\<open>uv_signal_stop\<close> is taken to succeed). Neither touches \<^verbatim>\<open>cli_state_t\<close>.
  The argument is the handle's \<^verbatim>\<open>data\<close>; a field that was never assigned is read
  all the same, which is undefined behaviour.
\<close>

definition upload_signal_handler :: "nat option \<Rightarrow> world \<Rightarrow> world" where
  "upload_signal_handler data w =
     (case data of
        None \<Rightarrow> undefined_behaviour w
      | Some state \<Rightarrow>
          (emit (Bridge_store_file_cancel state) w)
            \<lparr>sig_handles := remove1 (Upload_signal data) (sig_handles w)\<rparr>)"

definition download_signal_handler :: "nat option \<Rightarrow> world \<Rightarrow> world" where
  "download_signal_handler data w =
     (case data of
        None \<Rightarrow> undefined_behaviour w
      | Some state \<Rightarrow>
          (emit (Bridge_resolve_file_cancel state) w)
            \<lparr>sig_handles := remove1 (Download_signal data) (sig_handles w)\<rparr>)"

section \<open>File listing and bucket resolution\<close>

text \<open>
  The \<^verbatim>\<open>for\<close> loop of \<^verbatim>\<open>list_files_callback\<close>; \<open>to_file\<close> is \<^verbatim>\<open>dwnld_list_fd != stdout\<close>.
\<close>

fun list_files_loop :: "bool \<Rightarrow> storj_file_meta_t list \<Rightarrow> world \<Rightarrow> world" where
  "list_files_loop to_file [] w = w"
| "list_files_loop to_file (f # rest) w =
     (case curr_cmd_req (cli w) of
        None \<Rightarrow> undefined_behaviour w
      | Some cmd \<Rightarrow>
          (let w1 = (if cmd = ''list-files''
                     then emit (Printf (File_listing (file_meta_id f) (file_meta_filename f))) w
                     else w);
               w2 = (if to_file
                     then append_file dwnld_list
                            (file_meta_id f @ '':'' @ file_meta_filename f @ [newline]) w1
                     else w1);
               w3 = (if file_name (cli w2) = Some (file_meta_filename f) then
                       (let w2a = (if to_file then
                                     (case check_file_path dwnld_list w2 of
                                        (r, wa) \<Rightarrow>
                                          if r = CLI_VALID_REGULAR_FILE
                                          then emit (Printf List_file_deleted) (unlink dwnld_list wa)
                                          else wa)
                                   else w2)
                        in w2a\<lparr>cli := (cli w2a)\<lparr>file_id := Some (file_meta_id f),
                                                  next_cmd_req := Some ''download-file-1'',
                                                  total_files := 0\<rparr>\<rparr>)
                     else w2)
           in list_files_loop to_file rest w3))"

text \<open>
  \<^verbatim>\<open>list_files_callback\<close> with the request's \<^verbatim>\<open>status_code\<close> and \<^verbatim>\<open>files\<close>
  (\<^verbatim>\<open>total_files\<close> is their number).
\<close>

definition list_files_callback :: "int \<Rightarrow> storj_file_meta_t list \<Rightarrow> world \<Rightarrow> world" where
  "list_files_callback status_code files w0 =
     (if status_code = 404 then emit (Printf Bucket_id_does_not_exist) w0
      else if status_code = 400 then emit (Printf Bucket_id_is_invalid) w0
      else if status_code = 401 then emit (Printf Invalid_user_credentials) w0
      else
        (let w1 = (if status_code \<noteq> 200 then emit (Printf (Request_failed status_code)) w0
                   else w0);
             w2 = (if files = [] then emit (Printf No_files_for_bucket) w1 else w1);
             w3 = w2\<lparr>cli := (cli w2)\<lparr>file_id := None\<rparr>\<rparr>;
             wildcard = (file_name (cli w3) = Some ''*'')
         in if wildcard \<and> \<not> can_create dwnld_list w3
            then emit (Printf Unable_to_create_download_list) w3
            else
              (let w4 = (if wildcard then
                           (let wt = truncate_file dwnld_list w3
                            in wt\<lparr>cli := (cli wt)\<lparr>total_files := int (length files)\<rparr>\<rparr>)
                         else w3);
                   w5 = list_files_loop wildcard files w4
               in if proc w5 \<noteq> Running then w5
                  else
                    (case curr_cmd_req (cli w5) of
                       None \<Rightarrow> undefined_behaviour w5
                     | Some cmd \<Rightarrow>
                         if cmd = ''download-file'' then
                           queue_next_cli_cmd
                             (w5\<lparr>cli := (cli w5)\<lparr>curr_up_file := 1,
                                                 next_cmd_req := Some ''download-file-1''\<rparr>\<rparr>)
                         else
                           (case check_file_path dwnld_list w5 of
                              (r, w6) \<Rightarrow>
                                if r = CLI_VALID_REGULAR_FILE
                                then emit (Printf List_file_deleted) (unlink dwnld_list w6)
                                else w6)))))"

text \<open>
  The \<^verbatim>\<open>for\<close> loop of \<^verbatim>\<open>get_bucket_id_callback\<close>; the result carries \<^verbatim>\<open>ret_status\<close>.
  The test \<^verbatim>\<open>i >= (req->total_buckets - 1)\<close> holds at the last bucket.
\<close>

fun get_bucket_id_loop :: "storj_bucket_meta_t list \<Rightarrow> world \<Rightarrow> int \<times> world" where
  "get_bucket_id_loop [] w = (0, w)"
| "get_bucket_id_loop (b # rest) w =
     (let w1 = w\<lparr>cli := (cli w)\<lparr>next_cmd_req := None\<rparr>\<rparr> in
      case bucket_name (cli w1) of
        None \<Rightarrow>
          get_bucket_id_loop rest
            (emit (Printf (Bucket_listing (bucket_meta_id b) (bucket_meta_name b))) w1)
      | Some bn \<Rightarrow>
          if bn = bucket_meta_name b then
            (let w2 = emit (Printf (Bucket_listing (bucket_meta_id b) (bucket_meta_name b))) w1;
                 w3 = w2\<lparr>cli := (cli w2)\<lparr>bucket_id := Some (bucket_meta_id b)\<rparr>\<rparr>
             in case curr_cmd_req (cli w3) of
                  None \<Rightarrow> (0, undefined_behaviour w3)
                | Some cmd \<Rightarrow>
                    if cmd = ''list-files''
                    then (1, w3\<lparr>cli := (cli w3)\<lparr>next_cmd_req := Some ''list-files-1''\<rparr>\<rparr>)
                    else if cmd = ''download-file''
                    then (1, w3\<lparr>cli := (cli w3)\<lparr>next_cmd_req := Some ''list-files-1''\<rparr>\<rparr>)
                    else if cmd = ''upload-file''
                    then (1, w3\<lparr>cli := (cli w3)\<lparr>next_cmd_req := Some ''upload-file-1''\<rparr>\<rparr>)
                    else if cmd = ''get-bucket-id'' then (0, w3)
                    else (0, emit (Printf (Invalid_curr_cmd_req cmd)) w3))
          else if rest = [] then get_bucket_id_loop rest (emit (Printf Invalid_bucket_name) w1)
          else get_bucket_id_loop rest w1)"

text \<open>\<^verbatim>\<open>get_bucket_id_callback\<close> with the request's \<^verbatim>\<open>status_code\<close> and \<^verbatim>\<open>buckets\<close>.\<close>

definition get_bucket_id_callback :: "int \<Rightarrow> storj_bucket_meta_t list \<Rightarrow> world \<Rightarrow> world" where
  "get_bucket_id_callback status_code buckets w0 =
     (let w1 = (if status_code = 401 then emit (Printf Invalid_user_credentials) w0
                else if status_code \<noteq> 200 \<and> status_code \<noteq> 304
                then emit (Printf (Request_failed status_code)) w0
                else if buckets = [] then emit (Printf No_buckets) w0
                else w0)
      in case get_bucket_id_loop buckets w1 of
           (ret_status, w2) \<Rightarrow>
             if proc w2 = Running \<and> ret_status = 1 then queue_next_cli_cmd w2 else w2)"

section \<open>Command entry points\<close>

text \<open>
  \<^verbatim>\<open>cli_download_file(path, bucket_name, cli_state)\<close>; the second argument is the
  \<^verbatim>\<open>storj://\<close> reference. The bridge request is taken to be accepted (result 0).
\<close>

definition cli_download_file :: "string option \<Rightarrow> string \<Rightarrow> world \<Rightarrow> int \<times> world" where
  "cli_download_file path uri w =
     (case validate_cmd_tokenize 10 uri of
        Token_overrun \<Rightarrow> (0, undefined_behaviour w)
      | Tokenized num_of_tokens toks out \<Rightarrow>
          (let w1 = emits (map Printf out) w;
               w2 = w1\<lparr>cli := (cli w1)\<lparr>curr_cmd_req := Some ''download-file'',
                                        bucket_name := token_at toks 1,
                                        file_name := token_at toks 2,
                                        file_path := path\<rparr>\<rparr>
           in case (token_at toks 1, token_at toks 2, path) of
                (Some bn, Some fname, Some fp) \<Rightarrow>
                  if fname = ''*'' then
                    (case check_file_path fp w2 of
                       (r, w3) \<Rightarrow>
                         if r = CLI_VALID_DIR then (0, bridge_get_buckets w3)
                         else (- 1, emit (Printf (Target_is_not_a_directory fp)) w3))
                  else (0, bridge_get_buckets w2)
              | _ \<Rightarrow> (- 1, emit (Printf Missing_arguments) w2)))"

text \<open>The common end of the accepted cases of \<^verbatim>\<open>cli_upload_file\<close>.\<close>

definition request_bucket_id :: "world \<Rightarrow> world" where
  "request_bucket_id w = (if bucket_id (cli w) = None then bridge_get_buckets w else w)"

text \<open>
  \<^verbatim>\<open>cli_upload_file(path, bucket_name, cli_state)\<close> from the \<^verbatim>\<open>switch\<close> on. Its first
  statement, \<^verbatim>\<open>file_exists(path)\<close>, stats the path and, for a directory, has
  \<^verbatim>\<open>printdir\<close> write the list file; neither is modelled, so the value it returns is the
  argument \<open>file_exist_status\<close> and the world is the one it leaves. \<open>upload_list\<close> is
  \<^verbatim>\<open>getenv("PWD")\<close> with \<^verbatim>\<open>"/output.txt"\<close> appended (\<open>None\<close> when \<^verbatim>\<open>PWD\<close> is unset);
  the inner \<^verbatim>\<open>file_exists(upload_list)\<close> is read as "is a regular file". The diagnostic
  \<^verbatim>\<open>printf\<close>s of the directory case are left out.
\<close>

definition cli_upload_file ::
  "int \<Rightarrow> string option \<Rightarrow> string \<Rightarrow> string \<Rightarrow> world \<Rightarrow> int \<times> world" where
  "cli_upload_file file_exist_status upload_list path uri w =
     (if file_exist_status = CLI_UNKNOWN_FILE_ATTR \<or> file_exist_status = CLI_NO_SUCH_FILE_OR_DIR
      then (0, emit (Printf Invalid_filename) w)
      else if file_exist_status = CLI_VALID_REGULAR_FILE then
        (case validate_cmd_tokenize 10 uri of
           Token_overrun \<Rightarrow> (0, undefined_behaviour w)
         | Tokenized num_of_tokens toks out \<Rightarrow>
             (let w1 = emits (map Printf out) w;
                  w2 = w1\<lparr>cli := (cli w1)\<lparr>total_files := 0, curr_up_file := 0\<rparr>\<rparr>;
                  accepted = w2\<lparr>cli := (cli w2)\<lparr>curr_cmd_req := Some ''upload-file'',
                                                 bucket_name := token_at toks 1,
                                                 file_path := Some path\<rparr>\<rparr>
              in if num_of_tokens = 3 then
                   (case token_at toks 2 of
                      None \<Rightarrow> (0, undefined_behaviour w2)
                    | Some t2 \<Rightarrow>
                        if get_filename_separator path = t2 \<or> t2 = ''.''
                        then (0, request_bucket_id accepted)
                        else (- 1, emit (Printf Invalid_upload_target_filename) w2))
                 else if num_of_tokens = 2 then
                   (if token_at toks 2 = None
                    then (0, request_bucket_id
                               (emit (Printf (Target_file_name (get_filename_separator path)))
                                  accepted))
                    else (0, w2))
                 else (- 1, emit (Printf Invalid_command) w2)))
      else if file_exist_status = CLI_VALID_DIR then
        (case upload_list of
           None \<Rightarrow> (- 1, emit (Perror ''getenv() error'') w)
         | Some ul \<Rightarrow>
             (let counted =
                    (case fs w ul of
                       Some (Regular content) \<Rightarrow>
                         (case count_list_lines 0 (read_lines 65536 content) of
                            None \<Rightarrow> undefined_behaviour w
                          | Some i \<Rightarrow>
                              w\<lparr>cli := (cli w)\<lparr>file_name := Some ul,
                                                total_files := int i,
                                                curr_up_file := (if 0 < i then 1 else 0)\<rparr>\<rparr>)
                     | _ \<Rightarrow> w)
              in if proc counted \<noteq> Running then (0, counted)
                 else
                   (case validate_cmd_tokenize 10 uri of
                      Token_overrun \<Rightarrow> (0, undefined_behaviour counted)
                    | Tokenized num_of_tokens toks out \<Rightarrow>
                        (let w1 = emits (map Printf out) counted;
                             w2 = w1\<lparr>cli := (cli w1)\<lparr>curr_cmd_req := Some ''upload-file'',
                                                      bucket_name := token_at toks 1\<rparr>\<rparr>
                         in (0, request_bucket_id w2)))))
      else (0, w))"

text \<open>
  The single-file upload of the \<^verbatim>\<open>cp\<close> command in \<^verbatim>\<open>main\<close>: the body of
  \<^verbatim>\<open>if ((argc == 0x05) && (check_file_path(local_file_path) == CLI_VALID_REGULAR_FILE))\<close>.
  The arguments are the local path and the \<^verbatim>\<open>storj://\<close> destination (the local
  variable \<^verbatim>\<open>bucket_name\<close>, set from \<^verbatim>\<open>dst_path\<close>). The destination is tokenized into \<^verbatim>\<open>char *token[0x03]\<close>. With a count of
  2 or 3 every \<^verbatim>\<open>token[j]\<close> below the count is printed with \<^verbatim>\<open>%s\<close> (a count that is
  an offset leaves them \<^verbatim>\<open>NULL\<close>); then \<^verbatim>\<open>storj_api->bucket_name = token[1]\<close>, and
  \<^verbatim>\<open>storj_api->dst_file\<close>, the name under which the file is to be stored, is the file
  name of the local path when \<^verbatim>\<open>token[2]\<close> is \<^verbatim>\<open>NULL\<close>, equal to that name or
  \<^verbatim>\<open>"."\<close>, and \<^verbatim>\<open>token[2]\<close> otherwise. \<^verbatim>\<open>storj_upload_file\<close> is not part of cli.c: the
  result records the call with the bucket name, the local path (\<^verbatim>\<open>storj_api->file_name\<close>)
  and the destination name. The buffer \<^verbatim>\<open>storj_api->src_list\<close>, declared in storj.h, is
  taken to hold the name copied into it; the diagnostic \<^verbatim>\<open>printf\<close>s are left out.
\<close>

datatype cp_outcome =
    Cp_undefined_behaviour
  | Cp_no_upload "msg list"
  | Storj_upload_file "string option" string string

definition main_cp_upload_file :: "string \<Rightarrow> string \<Rightarrow> cp_outcome" where
  "main_cp_upload_file local_file_path dst_path =
     (case validate_cmd_tokenize 3 dst_path of
        Token_overrun \<Rightarrow> Cp_undefined_behaviour
      | Tokenized num_of_tokens toks out \<Rightarrow>
          if num_of_tokens = 2 \<or> num_of_tokens = 3 then
            (if int (length toks) < num_of_tokens then Cp_undefined_behaviour
             else
               (let dst_file_name = get_filename_separator local_file_path
                in case token_at toks 2 of
                     None \<Rightarrow> Storj_upload_file (token_at toks 1) local_file_path dst_file_name
                   | Some t2 \<Rightarrow>
                       if dst_file_name = t2 \<or> t2 = ''.''
                       then Storj_upload_file (token_at toks 1) local_file_path dst_file_name
                       else Storj_upload_file (token_at toks 1) local_file_path t2))
          else Cp_no_upload (out @ [Valid_dst_filename_missing]))"

section \<open>The event loop\<close>

text \<open>
  What the event loop delivers: the completion of a bucket listing or a file listing
  (status code and entries), the completion of a transfer (status), and the interrupt
  signal. The bridge library behind \<^verbatim>\<open>storj.h\<close> is not part of cli.c; its contract is
  taken as the interface description gives it: a request returns at once, its
  completion callback is delivered later from the event loop, exactly once, and a
  transfer that was cancelled completes too, with a status other than 0.
\<close>

datatype event =
    Get_buckets_done int "storj_bucket_meta_t list"
  | List_files_done int "storj_file_meta_t list"
  | Upload_done int
  | Download_done int
  | Sigint

text \<open>
  The interrupt. Every call of the executor starts a signal handle of its own, and a
  handle is stopped only by its own handler; a completion callback does not stop it. So
  one interrupt runs the handler of every handle that is started, those of transfers
  that have completed included. The order among them is libuv's; the model takes the
  order in which they were started.
\<close>

fun signal_handlers :: "sig_handle list \<Rightarrow> world \<Rightarrow> world" where
  "signal_handlers [] w = w"
| "signal_handlers (h # hs) w =
     (if proc w \<noteq> Running then w
      else signal_handlers hs
             (case h of
                Upload_signal data \<Rightarrow> upload_signal_handler data w
              | Download_signal data \<Rightarrow> download_signal_handler data w))"

text \<open>
  One delivery. A completion is delivered only for an operation that is pending;
  anything else, and anything after the process has ended, changes nothing. An
  interrupt while no signal handle is started is not handled by cli.c (the signal then
  has its default disposition); the model leaves the world as it is.
\<close>

definition take_op :: "bridge_op \<Rightarrow> world \<Rightarrow> world" where
  "take_op op w = w\<lparr>pending := remove1 op (pending w)\<rparr>"

definition step :: "world \<Rightarrow> event \<Rightarrow> world" where
  "step w ev =
     (if proc w \<noteq> Running then w
      else case ev of
        Get_buckets_done code buckets \<Rightarrow>
          if Get_buckets_op \<in> set (pending w)
          then get_bucket_id_callback code buckets (take_op Get_buckets_op w) else w
      | List_files_done code files \<Rightarrow>
          if List_files_op \<in> set (pending w)
          then list_files_callback code files (take_op List_files_op w) else w
      | Upload_done status \<Rightarrow>
          if Store_file_op \<in> set (pending w)
          then upload_file_complete status (take_op Store_file_op w) else w
      | Download_done status \<Rightarrow>
          if Resolve_file_op \<in> set (pending w)
          then download_file_complete status (take_op Resolve_file_op w) else w
      | Sigint \<Rightarrow> signal_handlers (sig_handles w) w)"

definition run :: "world \<Rightarrow> event list \<Rightarrow> world" where
  "run w evs = foldl step w evs"

text \<open>The executor calls among the effects, in order.\<close>

fun is_executor_call :: "effect \<Rightarrow> bool" where
  "is_executor_call (Enter_upload_file b p) = True"
| "is_executor_call (Enter_download_file b f p) = True"
| "is_executor_call e = False"

definition executor_calls :: "world \<Rightarrow> effect list" where
  "executor_calls w = filter is_executor_call (effects w)"

text \<open>A world before the command starts: zeroed state, nothing pending, nothing printed.\<close>

definition initial_cli_state :: cli_state_t where
  "initial_cli_state =
     \<lparr>bucket_name = None, bucket_id = None, file_name = None, file_path = None,
      file_id = None, total_files = 0, curr_up_file = 0, curr_cmd_req = None,
      next_cmd_req = None\<rparr>"

definition initial_world :: "(string \<rightharpoonup> fnode) \<Rightarrow> string list \<Rightarrow> (string \<rightharpoonup> string) \<Rightarrow> world" where
  "initial_world files console env =
     \<lparr>cli = initial_cli_state, fs = files, unwritable = [], stdin_lines = console,
      environ = env, sig_malloc_ok = True, bridge_handle = Some 0,
      decryption_error_code = 3004, pending = [], sig_handles = [], transfer_states = 0,
      effects = [], proc = Running\<rparr>"

section \<open>Notions used to state the properties\<close>

text \<open>The option records handed to the bridge's store operation, in order.\<close>

fun store_opts :: "effect \<Rightarrow> storj_upload_opts_t option" where
  "store_opts (Bridge_store_file opts) = Some opts"
| "store_opts e = None"

definition store_calls :: "world \<Rightarrow> storj_upload_opts_t list" where
  "store_calls w = List.map_filter store_opts (effects w)"

text \<open>The calls of the bridge's resolve operation among the effects.\<close>

fun is_resolve_call :: "effect \<Rightarrow> bool" where
  "is_resolve_call (Bridge_resolve_file b f p) = True"
| "is_resolve_call e = False"

definition resolve_calls :: "world \<Rightarrow> effect list" where
  "resolve_calls w = filter is_resolve_call (effects w)"

definition list_content :: "string list \<Rightarrow> string" where
  "list_content ls = concat (map (\<lambda>l. l @ [newline]) ls)"

definition basename_spec :: "string \<Rightarrow> string" where
  "basename_spec p = rev (takeWhile (\<lambda>c. c \<noteq> CHR ''/'') (rev p))"

definition list_ok :: "string list \<Rightarrow> bool" where
  "list_ok ls \<longleftrightarrow> length ls \<le> 256 \<and> (\<forall>l\<in>set ls. newline \<notin> set l \<and> length l < 255)"

definition upload_batch :: "string \<Rightarrow> string list \<Rightarrow> world \<Rightarrow> bool" where
  "upload_batch L ls w \<longleftrightarrow>
     proc w = Running \<and> curr_cmd_req (cli w) = Some ''upload-file''
     \<and> next_cmd_req (cli w) = Some ''upload-file-1''
     \<and> file_name (cli w) = Some L \<and> fs w L = Some (Regular (list_content ls))
     \<and> total_files (cli w) = int (length ls)
     \<and> sig_malloc_ok w \<and> bridge_handle w \<noteq> None"

definition uploading ::
  "string \<Rightarrow> string list \<Rightarrow> string option \<Rightarrow> effect list \<Rightarrow> nat \<Rightarrow> world \<Rightarrow> bool" where
  "uploading L ls bid calls0 k w \<longleftrightarrow>
     upload_batch L ls w \<and> curr_up_file (cli w) = int k + 1 \<and> pending w = [Store_file_op]
     \<and> bucket_id (cli w) = bid
     \<and> executor_calls w = calls0 @ map (\<lambda>l. Enter_upload_file bid (Some l)) (take k ls)"

definition upload_completed :: "int \<Rightarrow> world \<Rightarrow> world" where
  "upload_completed status w =
     emit (Printf Upload_success)
       (if status \<noteq> 0 then emit (Printf (Upload_failure status)) (take_op Store_file_op w)
        else take_op Store_file_op w)"

fun is_printf :: "effect \<Rightarrow> bool" where
  "is_printf (Printf m) = True"
| "is_printf e = False"

definition bucket_status_effects :: "int \<Rightarrow> storj_bucket_meta_t list \<Rightarrow> effect list" where
  "bucket_status_effects code buckets =
     (if code = 401 then [Printf Invalid_user_credentials]
      else if code \<noteq> 200 \<and> code \<noteq> 304 then [Printf (Request_failed code)]
      else if buckets = [] then [Printf No_buckets]
      else [])"


definition encode_item :: "storj_file_meta_t \<Rightarrow> string" where
  "encode_item f = file_meta_id f @ '':'' @ file_meta_filename f"

definition item_ok :: "string \<Rightarrow> storj_file_meta_t \<Rightarrow> bool" where
  "item_ok dir f \<longleftrightarrow>
     file_meta_id f \<noteq> [] \<and> CHR '':'' \<notin> set (file_meta_id f) \<and> newline \<notin> set (file_meta_id f)
     \<and> file_meta_filename f \<noteq> [] \<and> CHR '':'' \<notin> set (file_meta_filename f)
     \<and> newline \<notin> set (file_meta_filename f)
     \<and> length (encode_item f) < 255
     \<and> length dir + length (file_meta_filename f) < 1024"

definition download_batch :: "string \<Rightarrow> storj_file_meta_t list \<Rightarrow> world \<Rightarrow> bool" where
  "download_batch dir items w \<longleftrightarrow>
     proc w = Running \<and> curr_cmd_req (cli w) = Some ''download-file''
     \<and> next_cmd_req (cli w) = Some ''download-file-1''
     \<and> file_path (cli w) = Some dir
     \<and> fs w dwnld_list = Some (Regular (list_content (map encode_item items)))
     \<and> total_files (cli w) = int (length items)
     \<and> sig_malloc_ok w \<and> bridge_handle w \<noteq> None
     \<and> length items \<le> 256 \<and> (\<forall>f\<in>set items. item_ok dir f)"

definition download_completed :: "int \<Rightarrow> world \<Rightarrow> world" where
  "download_completed status w =
     (let t = take_op Resolve_file_op w
      in if status \<noteq> 0 then
           (if status = decryption_error_code t then emit (Printf Unable_to_decrypt) t
            else emit (Printf (Download_failure status)) t)
         else emit (Printf Download_success) t)"

definition downloading ::
  "string \<Rightarrow> storj_file_meta_t list \<Rightarrow> string option \<Rightarrow> effect list \<Rightarrow> nat \<Rightarrow> world \<Rightarrow> bool" where
  "downloading dir items bid calls0 k w \<longleftrightarrow>
     download_batch dir items w \<and> curr_up_file (cli w) = int k + 1
     \<and> pending w = [Resolve_file_op] \<and> bucket_id (cli w) = bid
     \<and> executor_calls w =
         calls0 @ map (\<lambda>f. Enter_download_file bid (Some (file_meta_id f))
                              (Some (dir @ file_meta_filename f))) (take k items)
     \<and> distinct (map file_meta_filename items)
     \<and> (\<forall>f\<in>set (drop k items).
           fs w (dir @ file_meta_filename f) = None
           \<and> can_create (dir @ file_meta_filename f) w)"



text \<open>
  The signal handles of a batch in which \<open>k\<close> items have been dispatched since the last
  interrupt (or since the start): one handle per item, in order, each holding the transfer
  state of its item; \<open>n0\<close> is the number of the first of these states.
\<close>

definition upload_signals :: "nat \<Rightarrow> nat \<Rightarrow> world \<Rightarrow> bool" where
  "upload_signals n0 k w \<longleftrightarrow>
     sig_handles w = map (\<lambda>n. Upload_signal (Some n)) [n0 ..< n0 + k]
     \<and> transfer_states w = n0 + k"

definition download_signals :: "nat \<Rightarrow> nat \<Rightarrow> world \<Rightarrow> bool" where
  "download_signals n0 k w \<longleftrightarrow>
     sig_handles w = map (\<lambda>n. Download_signal (Some n)) [n0 ..< n0 + k]
     \<and> transfer_states w = n0 + k"


section \<open>Supporting lemmas\<close>

lemma fgets_split_line:
  "newline \<notin> set l \<Longrightarrow> length l < n \<Longrightarrow> fgets_split n (l @ newline # rest) = (l @ [newline], rest)"
proof (induction l arbitrary: n)
  case Nil
  then show ?case by (cases n) auto
next
  case (Cons x xs)
  then obtain m where "n = Suc m" by (cases n) auto
  with Cons show ?case by auto
qed

lemma fgets_line:
  "newline \<notin> set l \<Longrightarrow> length l < 65535 \<Longrightarrow> fgets 65536 (l @ newline # rest) = Some (l @ [newline], rest)"
  by (simp add: fgets_def fgets_split_line)

lemma read_lines_list_content:
  "\<forall>l\<in>set ls. newline \<notin> set l \<and> length l < 65535 \<Longrightarrow>
   read_lines 65536 (list_content ls) = map (\<lambda>l. l @ [newline]) ls"
proof (induction ls)
  case Nil
  show ?case by (simp add: list_content_def read_lines.simps fgets_def)
next
  case (Cons l ls)
  have "list_content (l # ls) = l @ newline # list_content ls"
    by (simp add: list_content_def)
  moreover have "fgets 65536 (l @ newline # list_content ls) = Some (l @ [newline], list_content ls)"
    using Cons.prems by (intro fgets_line) auto
  ultimately show ?case
    using Cons by (subst read_lines.simps) simp
qed

lemma strrchr_absent: "c \<notin> set l \<Longrightarrow> strrchr l c = None"
  by (induction l) auto

lemma strrchr_last: "c \<notin> set l \<Longrightarrow> strrchr (l @ [c]) c = Some [c]"
  by (induction l) auto

lemma chop_at_newline: "newline \<notin> set l \<Longrightarrow> chop_at newline (l @ [newline]) = l"
  by (simp add: chop_at_def strrchr_last)

lemma line_fits_short: "i < 256 \<Longrightarrow> length l < 255 \<Longrightarrow> line_fits i (l @ [newline])"
  by (simp add: line_fits_def)

lemma read_list_lines_map:
  "\<forall>l\<in>set ls. newline \<notin> set l \<and> length l < 255 \<Longrightarrow> i + length ls \<le> 256 \<Longrightarrow>
   read_list_lines cur i (map (\<lambda>l. l @ [newline]) ls) = Some (take (max 1 (nat (cur - int i))) ls)"
proof (induction ls arbitrary: i)
  case Nil
  show ?case by simp
next
  case (Cons l ls)
  have fit: "line_fits i (l @ [newline])"
    using Cons.prems by (intro line_fits_short) auto
  have chop: "chop_at newline (l @ [newline]) = l"
    using Cons.prems by (simp add: chop_at_newline)
  show ?case
  proof (cases "cur \<le> int (Suc i)")
    case True
    then have "max 1 (nat (cur - int i)) = 1" by simp
    with True fit chop show ?thesis by simp
  next
    case False
    then have m: "max 1 (nat (cur - int i)) = Suc (max 1 (nat (cur - int (Suc i))))"
      by simp
    have "read_list_lines cur (Suc i) (map (\<lambda>l. l @ [newline]) ls)
            = Some (take (max 1 (nat (cur - int (Suc i)))) ls)"
      using Cons.prems by (intro Cons.IH) auto
    with False fit chop m show ?thesis by simp
  qed
qed

lemma count_list_lines_map:
  "\<forall>l\<in>set ls. length l < 255 \<Longrightarrow> i + length ls \<le> 256 \<Longrightarrow>
   count_list_lines i (map (\<lambda>l. l @ [newline]) ls) = Some (i + length ls)"
proof (induction ls arbitrary: i)
  case Nil
  show ?case by simp
next
  case (Cons l ls)
  have fit: "line_fits i (l @ [newline])"
    using Cons.prems by (intro line_fits_short) auto
  have "count_list_lines (Suc i) (map (\<lambda>l. l @ [newline]) ls) = Some (Suc i + length ls)"
    using Cons.prems by (intro Cons.IH) auto
  with fit show ?case by simp
qed

lemma strtok_token:
  assumes "t \<noteq> []" "d \<notin> set t"
  shows "strtok (t @ d # rest) [d] = Some (t, rest)"
proof -
  from assms obtain x xs where t: "t = x # xs" and x: "x \<noteq> d"
    by (cases t) auto
  have all: "\<forall>c\<in>set t. c \<notin> set [d]"
    using assms(2) by auto
  have sk: "dropWhile (\<lambda>c. c \<in> set [d]) (t @ d # rest) = t @ d # rest"
    using t x by simp
  have "takeWhile (\<lambda>c. c \<notin> set [d]) (t @ d # rest) = takeWhile (\<lambda>c. c \<notin> set [d]) t"
    by (rule takeWhile_tail) simp
  also have "\<dots> = t"
    using all by (rule takeWhile_eq_all_conv [THEN iffD2])
  finally have tw: "takeWhile (\<lambda>c. c \<notin> set [d]) (t @ d # rest) = t" .
  have "dropWhile (\<lambda>c. c \<notin> set [d]) (t @ d # rest)
          = dropWhile (\<lambda>c. c \<notin> set [d]) t @ d # rest"
    by (rule dropWhile_append3) simp
  also have "dropWhile (\<lambda>c. c \<notin> set [d]) t = []"
    using all by (rule dropWhile_eq_Nil_conv [THEN iffD2])
  finally have dw: "dropWhile (\<lambda>c. c \<notin> set [d]) (t @ d # rest) = d # rest"
    by simp
  show ?thesis
    unfolding strtok_def Let_def sk tw dw using t by simp
qed

lemma tokens_of_Nil: "tokens_of [] delim = []"
  by (simp add: tokens_of.simps strtok_def)

lemma tokens_of_skip: "tokens_of (d # s) [d] = tokens_of s [d]"
  by (subst tokens_of.simps, subst (2) tokens_of.simps) (simp add: strtok_def)

lemma tokens_of_token:
  "t \<noteq> [] \<Longrightarrow> d \<notin> set t \<Longrightarrow> tokens_of (t @ d # rest) [d] = t # tokens_of rest [d]"
  by (subst tokens_of.simps) (simp add: strtok_token)

lemma strtok_last:
  assumes "t \<noteq> []" "d \<notin> set t"
  shows "strtok t [d] = Some (t, [])"
proof -
  from assms obtain x xs where t: "t = x # xs" and x: "x \<noteq> d"
    by (cases t) auto
  have all: "\<forall>c\<in>set t. c \<notin> set [d]"
    using assms(2) by auto
  have sk: "dropWhile (\<lambda>c. c \<in> set [d]) t = t"
    using t x by simp
  have tw: "takeWhile (\<lambda>c. c \<notin> set [d]) t = t"
    using all by (rule takeWhile_eq_all_conv [THEN iffD2])
  have dw: "dropWhile (\<lambda>c. c \<notin> set [d]) t = []"
    using all by (rule dropWhile_eq_Nil_conv [THEN iffD2])
  show ?thesis
    unfolding strtok_def Let_def sk tw dw using t by simp
qed

lemma tokens_of_last:
  "t \<noteq> [] \<Longrightarrow> d \<notin> set t \<Longrightarrow> tokens_of t [d] = [t]"
  by (subst tokens_of.simps) (simp add: strtok_last tokens_of_Nil)

lemma takeWhile_until:
  "c \<in> set ys \<Longrightarrow> takeWhile (\<lambda>x. x \<noteq> c) (ys @ zs) = takeWhile (\<lambda>x. x \<noteq> c) ys"
  by (induction ys) auto

lemma strrchr_present:
  "c \<in> set p \<Longrightarrow> strrchr p c = Some (c # rev (takeWhile (\<lambda>x. x \<noteq> c) (rev p)))"
proof (induction p)
  case Nil
  then show ?case by simp
next
  case (Cons x xs)
  show ?case
  proof (cases "c \<in> set xs")
    case True
    then have "takeWhile (\<lambda>x. x \<noteq> c) (rev xs @ [x]) = takeWhile (\<lambda>x. x \<noteq> c) (rev xs)"
      by (simp add: takeWhile_until)
    with True Cons show ?thesis by simp
  next
    case False
    with Cons.prems have "x = c" by simp
    moreover have "takeWhile (\<lambda>x. x \<noteq> c) (rev xs @ [x]) = rev xs @ takeWhile (\<lambda>x. x \<noteq> c) [x]"
      using False by (intro takeWhile_append2) auto
    ultimately show ?thesis using False by (simp add: strrchr_absent)
  qed
qed

lemma get_filename_separator_basename: "get_filename_separator p = basename_spec p"
proof (cases "CHR ''/'' \<in> set p")
  case True
  then show ?thesis
    by (simp add: get_filename_separator_def basename_spec_def strrchr_present)
next
  case False
  then have "\<forall>c\<in>set (rev p). c \<noteq> CHR ''/''"
    by auto
  then have "takeWhile (\<lambda>c. c \<noteq> CHR ''/'') (rev p) = rev p"
    by (rule takeWhile_eq_all_conv [THEN iffD2])
  then have "basename_spec p = p"
    unfolding basename_spec_def by (simp only: rev_rev_ident)
  with False show ?thesis
    by (simp add: get_filename_separator_def strrchr_absent)
qed

lemma list_ok_read_lines:
  "list_ok ls \<Longrightarrow> read_lines 65536 (list_content ls) = map (\<lambda>l. l @ [newline]) ls"
  by (rule read_lines_list_content) (auto simp: list_ok_def)

lemma list_ok_read_list:
  assumes "list_ok ls"
  shows "read_list_lines cur 0 (read_lines 65536 (list_content ls))
           = Some (take (max 1 (nat cur)) ls)"
proof -
  have "read_list_lines cur 0 (map (\<lambda>l. l @ [newline]) ls)
          = Some (take (max 1 (nat (cur - int 0))) ls)"
    using assms by (intro read_list_lines_map) (auto simp: list_ok_def)
  then show ?thesis using assms by (simp add: list_ok_read_lines)
qed

lemma queue_upload_dispatch:
  assumes b: "upload_batch L ls w" and ok: "list_ok ls"
    and cur: "curr_up_file (cli w) = int k + 1" and k: "k < length ls"
  shows "upload_batch L ls (queue_next_cli_cmd w)"
    and "curr_up_file (cli (queue_next_cli_cmd w)) = int k + 2"
    and "executor_calls (queue_next_cli_cmd w)
           = executor_calls w @ [Enter_upload_file (bucket_id (cli w)) (Some (ls ! k))]"
    and "pending (queue_next_cli_cmd w) = pending w @ [Store_file_op]"
    and "bucket_id (cli (queue_next_cli_cmd w)) = bucket_id (cli w)"
    and "sig_handles (queue_next_cli_cmd w)
           = sig_handles w @ [Upload_signal (Some (transfer_states w))]"
    and "transfer_states (queue_next_cli_cmd w) = Suc (transfer_states w)"
proof -
  have rl: "read_list_lines (int k + 1) 0 (read_lines 65536 (list_content ls))
              = Some (take (Suc k) ls)"
    using ok by (simp add: list_ok_read_list nat_add_distrib)
  have ne: "ls \<noteq> []" using k by auto
  have la: "last (take (Suc k) ls) = ls ! k"
    using k by (simp add: take_Suc_conv_app_nth)
  from b obtain e where e: "bridge_handle w = Some e"
    by (auto simp: upload_batch_def)
  have q: "queue_next_cli_cmd w = queue_upload w"
    using b by (simp add: queue_next_cli_cmd_def upload_batch_def)
  have filt: "\<And>xs :: (nat \<times> string) list.
     filter is_executor_call (map (\<lambda>(k, l). Printf (Target_file_index k l)) xs) = []"
    by (auto simp: filter_empty_conv)
  show "upload_batch L ls (queue_next_cli_cmd w)"
    using b cur k e unfolding q
    by (simp add: queue_upload_def upload_batch_def fopen_r_def rl ne la Let_def
          upload_file_def emit_def emits_def)
  show "curr_up_file (cli (queue_next_cli_cmd w)) = int k + 2"
    using b cur k e unfolding q
    by (simp add: queue_upload_def upload_batch_def fopen_r_def rl ne la Let_def
          upload_file_def emit_def emits_def)
  show "executor_calls (queue_next_cli_cmd w)
           = executor_calls w @ [Enter_upload_file (bucket_id (cli w)) (Some (ls ! k))]"
    using b cur k e unfolding q
    by (simp add: queue_upload_def upload_batch_def fopen_r_def rl ne la Let_def
          upload_file_def emit_def emits_def executor_calls_def filt)
  show "pending (queue_next_cli_cmd w) = pending w @ [Store_file_op]"
    using b cur k e unfolding q
    by (simp add: queue_upload_def upload_batch_def fopen_r_def rl ne la Let_def
          upload_file_def emit_def emits_def)
  show "bucket_id (cli (queue_next_cli_cmd w)) = bucket_id (cli w)"
    using b cur k e unfolding q
    by (simp add: queue_upload_def upload_batch_def fopen_r_def rl ne la Let_def
          upload_file_def emit_def emits_def)
  show "sig_handles (queue_next_cli_cmd w)
           = sig_handles w @ [Upload_signal (Some (transfer_states w))]"
    using b cur k e unfolding q
    by (simp add: queue_upload_def upload_batch_def fopen_r_def rl ne la Let_def
          upload_file_def emit_def emits_def)
  show "transfer_states (queue_next_cli_cmd w) = Suc (transfer_states w)"
    using b cur k e unfolding q
    by (simp add: queue_upload_def upload_batch_def fopen_r_def rl ne la Let_def
          upload_file_def emit_def emits_def)
qed

lemma queue_upload_done:
  assumes b: "upload_batch L ls w" and ok: "list_ok ls"
    and cur: "curr_up_file (cli w) = int (length ls) + 1"
  shows "proc (queue_next_cli_cmd w) = Exited 0"
    and "executor_calls (queue_next_cli_cmd w) = executor_calls w"
    and "pending (queue_next_cli_cmd w) = pending w"
proof -
  have rl: "read_list_lines (int (length ls) + 1) 0 (read_lines 65536 (list_content ls))
              = Some ls"
    using ok by (simp add: list_ok_read_list nat_add_distrib)
  have q: "queue_next_cli_cmd w = queue_upload w"
    using b by (simp add: queue_next_cli_cmd_def upload_batch_def)
  have filt: "\<And>xs :: (nat \<times> string) list.
     filter is_executor_call (map (\<lambda>(k, l). Printf (Target_file_index k l)) xs) = []"
    by (auto simp: filter_empty_conv)
  show "proc (queue_next_cli_cmd w) = Exited 0"
    using b cur unfolding q
    by (simp add: queue_upload_def upload_batch_def fopen_r_def rl Let_def
          emit_def emits_def exit_with_def)
  show "executor_calls (queue_next_cli_cmd w) = executor_calls w"
    using b cur unfolding q
    by (simp add: queue_upload_def upload_batch_def fopen_r_def rl Let_def
          emit_def emits_def exit_with_def executor_calls_def filt)
  show "pending (queue_next_cli_cmd w) = pending w"
    using b cur unfolding q
    by (simp add: queue_upload_def upload_batch_def fopen_r_def rl Let_def
          emit_def emits_def exit_with_def)
qed

lemma step_upload_done:
  assumes "upload_batch L ls w" "ls \<noteq> []" "Store_file_op \<in> set (pending w)"
  shows "step w (Upload_done status) = queue_next_cli_cmd (upload_completed status w)"
  using assms
  by (simp add: step_def upload_file_complete_def upload_completed_def upload_batch_def
        emit_def take_op_def Let_def)

lemma upload_completed_props:
  assumes "upload_batch L ls w"
  shows "upload_batch L ls (upload_completed status w)"
    and "curr_up_file (cli (upload_completed status w)) = curr_up_file (cli w)"
    and "bucket_id (cli (upload_completed status w)) = bucket_id (cli w)"
    and "executor_calls (upload_completed status w) = executor_calls w"
    and "pending (upload_completed status w) = remove1 Store_file_op (pending w)"
    and "status \<noteq> 0 \<Longrightarrow> Printf (Upload_failure status) \<in> set (effects (upload_completed status w))"
    and "sig_handles (upload_completed status w) = sig_handles w"
    and "transfer_states (upload_completed status w) = transfer_states w"
  using assms
  by (simp_all add: upload_completed_def upload_batch_def emit_def take_op_def executor_calls_def)

lemma step_uploading:
  assumes u: "uploading L ls bid calls0 k w" and ok: "list_ok ls" and k: "k < length ls"
  shows "uploading L ls bid calls0 (Suc k) (step w (Upload_done status))"
proof -
  let ?c = "upload_completed status w"
  from u have b: "upload_batch L ls w" and p: "pending w = [Store_file_op]"
    and cur: "curr_up_file (cli w) = int k + 1" and bid: "bucket_id (cli w) = bid"
    and calls: "executor_calls w = calls0 @ map (\<lambda>l. Enter_upload_file bid (Some l)) (take k ls)"
    by (simp_all add: uploading_def)
  from k have ne: "ls \<noteq> []" by auto
  have st: "step w (Upload_done status) = queue_next_cli_cmd ?c"
    using b ne p by (intro step_upload_done) auto
  note cp = upload_completed_props [OF b, of status]
  have cur': "curr_up_file (cli ?c) = int k + 1" using cp(2) cur by simp
  note d = queue_upload_dispatch [OF cp(1) ok cur' k]
  show ?thesis
    unfolding st uploading_def
    using d cp p bid calls k by (simp add: take_Suc_conv_app_nth)
qed

lemma step_uploading_last:
  assumes u: "uploading L ls bid calls0 (length ls) w" and ok: "list_ok ls" and ne: "ls \<noteq> []"
  shows "proc (step w (Upload_done status)) = Exited 0"
    and "executor_calls (step w (Upload_done status))
           = calls0 @ map (\<lambda>l. Enter_upload_file bid (Some l)) ls"
proof -
  let ?c = "upload_completed status w"
  from u have b: "upload_batch L ls w" and p: "pending w = [Store_file_op]"
    and cur: "curr_up_file (cli w) = int (length ls) + 1"
    and calls: "executor_calls w = calls0 @ map (\<lambda>l. Enter_upload_file bid (Some l)) ls"
    by (simp_all add: uploading_def)
  have st: "step w (Upload_done status) = queue_next_cli_cmd ?c"
    using b ne p by (intro step_upload_done) auto
  note cp = upload_completed_props [OF b, of status]
  have cur': "curr_up_file (cli ?c) = int (length ls) + 1" using cp(2) cur by simp
  note d = queue_upload_done [OF cp(1) ok cur']
  show "proc (step w (Upload_done status)) = Exited 0"
    unfolding st using d by simp
  show "executor_calls (step w (Upload_done status))
           = calls0 @ map (\<lambda>l. Enter_upload_file bid (Some l)) ls"
    unfolding st using d cp calls by simp
qed

lemma run_snoc: "run w (evs @ [ev]) = step (run w evs) ev"
  by (simp add: run_def)

lemma run_uploading:
  assumes u: "uploading L ls bid calls0 1 w" and ok: "list_ok ls"
  shows "length sts < length ls \<Longrightarrow>
         uploading L ls bid calls0 (Suc (length sts)) (run w (map Upload_done sts))"
proof (induction sts rule: rev_induct)
  case Nil
  with u show ?case by (simp add: run_def)
next
  case (snoc s sts)
  then have "uploading L ls bid calls0 (Suc (length sts)) (run w (map Upload_done sts))"
    by simp
  from step_uploading [OF this ok, of s] snoc.prems
  show ?case by (simp add: run_snoc)
qed

lemma step_stopped: "proc w \<noteq> Running \<Longrightarrow> step w ev = w"
  by (simp add: step_def)

lemma run_stopped: "proc w \<noteq> Running \<Longrightarrow> run w evs = w"
  by (induction evs rule: rev_induct) (simp_all add: run_snoc step_stopped, simp add: run_def)

lemma run_append: "run w (xs @ ys) = run (run w xs) ys"
  by (simp add: run_def)


lemma get_bucket_id_loop_match:
  assumes "bucket_name (cli w) = Some bn" "curr_cmd_req (cli w) = Some cmd"
    and "\<forall>x\<in>set pre. bucket_meta_name x \<noteq> bn" "bucket_meta_name b = bn"
  shows "get_bucket_id_loop (pre @ b # post) w =
           (let w3 = w\<lparr>cli := (cli w)\<lparr>next_cmd_req := None,
                                       bucket_id := Some (bucket_meta_id b)\<rparr>,
                        effects := effects w @ [Printf (Bucket_listing (bucket_meta_id b) bn)]\<rparr>
            in if cmd = ''list-files'' \<or> cmd = ''download-file''
               then (1, w3\<lparr>cli := (cli w3)\<lparr>next_cmd_req := Some ''list-files-1''\<rparr>\<rparr>)
               else if cmd = ''upload-file''
               then (1, w3\<lparr>cli := (cli w3)\<lparr>next_cmd_req := Some ''upload-file-1''\<rparr>\<rparr>)
               else if cmd = ''get-bucket-id'' then (0, w3)
               else (0, emit (Printf (Invalid_curr_cmd_req cmd)) w3))"
  using assms
proof (induction pre arbitrary: w)
  case Nil
  then show ?case by (simp add: emit_def Let_def)
next
  case (Cons a pre)
  have "get_bucket_id_loop ((a # pre) @ b # post) w
          = get_bucket_id_loop (pre @ b # post) (w\<lparr>cli := (cli w)\<lparr>next_cmd_req := None\<rparr>\<rparr>)"
    using Cons.prems by (auto simp: Let_def)
  also have "\<dots> = (let w3 = w\<lparr>cli := (cli w)\<lparr>next_cmd_req := None,
                                       bucket_id := Some (bucket_meta_id b)\<rparr>,
                        effects := effects w @ [Printf (Bucket_listing (bucket_meta_id b) bn)]\<rparr>
            in if cmd = ''list-files'' \<or> cmd = ''download-file''
               then (1, w3\<lparr>cli := (cli w3)\<lparr>next_cmd_req := Some ''list-files-1''\<rparr>\<rparr>)
               else if cmd = ''upload-file''
               then (1, w3\<lparr>cli := (cli w3)\<lparr>next_cmd_req := Some ''upload-file-1''\<rparr>\<rparr>)
               else if cmd = ''get-bucket-id'' then (0, w3)
               else (0, emit (Printf (Invalid_curr_cmd_req cmd)) w3))"
    using Cons.prems by (subst Cons.IH) (auto simp: Let_def)
  finally show ?case .
qed

lemma get_bucket_id_callback_match:
  assumes "proc w = Running" "bucket_name (cli w) = Some bn" "curr_cmd_req (cli w) = Some cmd"
    and "\<forall>x\<in>set pre. bucket_meta_name x \<noteq> bn" "bucket_meta_name b = bn"
    and "cmd = ''list-files'' \<or> cmd = ''download-file'' \<or> cmd = ''upload-file''"
  shows "get_bucket_id_callback code (pre @ b # post) w =
           queue_next_cli_cmd
             (w\<lparr>effects := effects w @ bucket_status_effects code (pre @ b # post)
                             @ [Printf (Bucket_listing (bucket_meta_id b) bn)],
                cli := (cli w)\<lparr>bucket_id := Some (bucket_meta_id b),
                               next_cmd_req := Some (if cmd = ''upload-file'' then ''upload-file-1''
                                                     else ''list-files-1'')\<rparr>\<rparr>)"
proof -
  let ?w1 = "w\<lparr>effects := effects w @ bucket_status_effects code (pre @ b # post)\<rparr>"
  have w1: "(if code = 401 then emit (Printf Invalid_user_credentials) w
             else if code \<noteq> 200 \<and> code \<noteq> 304 then emit (Printf (Request_failed code)) w
             else if pre @ b # post = [] then emit (Printf No_buckets) w
             else w) = ?w1"
    by (simp add: bucket_status_effects_def emit_def)
  have "bucket_name (cli ?w1) = Some bn" "curr_cmd_req (cli ?w1) = Some cmd"
    using assms by simp_all
  note m = get_bucket_id_loop_match [OF this assms(4,5), of post]
  have cb: "get_bucket_id_callback code (pre @ b # post) w =
              (case get_bucket_id_loop (pre @ b # post) ?w1 of
                 (ret_status, w2) \<Rightarrow>
                   if proc w2 = Running \<and> ret_status = 1 then queue_next_cli_cmd w2 else w2)"
    unfolding get_bucket_id_callback_def Let_def w1 ..
  from assms(6) consider "cmd = ''list-files''" | "cmd = ''download-file''" | "cmd = ''upload-file''"
    by blast
  then show ?thesis
  proof cases
    case 1
    show ?thesis
      unfolding cb m using assms(1) 1 by (simp add: Let_def)
  next
    case 2
    show ?thesis
      unfolding cb m using assms(1) 2 by (simp add: Let_def)
  next
    case 3
    show ?thesis
      unfolding cb m using assms(1) 3 by (simp add: Let_def)
  qed
qed



lemma find_Some_split:
  assumes "find P xs = Some b"
  shows "\<exists>pre post. xs = pre @ b # post \<and> P b \<and> (\<forall>x\<in>set pre. \<not> P x)"
  using assms
proof (induction xs)
  case Nil
  then show ?case by simp
next
  case (Cons a xs)
  show ?case
  proof (cases "P a")
    case True
    with Cons.prems have "a = b" by simp
    with True have "a # xs = [] @ b # xs \<and> P b \<and> (\<forall>x\<in>set []. \<not> P x)" by simp
    then show ?thesis by blast
  next
    case False
    with Cons obtain pre post where "xs = pre @ b # post" "P b" "\<forall>x\<in>set pre. \<not> P x"
      by auto
    with False have "a # xs = (a # pre) @ b # post \<and> P b \<and> (\<forall>x\<in>set (a # pre). \<not> P x)"
      by simp
    then show ?thesis by blast
  qed
qed


lemma bucket_status_effects_printf: "list_all is_printf (bucket_status_effects code bs)"
  by (simp add: bucket_status_effects_def)

lemma executor_calls_printf:
  "list_all is_printf es \<Longrightarrow> filter is_executor_call es = []"
proof (induction es)
  case Nil
  show ?case by simp
next
  case (Cons e es)
  then show ?case by (cases e) auto
qed


lemma validate_tokens_count:
  assumes "validate_cmd_tokenize cap s = Tokenized n toks out" "toks \<noteq> []"
  shows "n = int (length toks) \<and> out = []"
  using assms
  by (auto simp: validate_cmd_tokenize_def Let_def split: if_splits)

lemma step_get_buckets_done:
  assumes "proc w = Running" "Get_buckets_op \<in> set (pending w)"
  shows "step w (Get_buckets_done code buckets)
           = get_bucket_id_callback code buckets (take_op Get_buckets_op w)"
  using assms by (simp add: step_def)

lemma run_single: "run w [ev] = step w ev"
  by (simp add: run_def)

lemma store_calls_printf:
  "list_all is_printf es \<Longrightarrow> List.map_filter store_opts es = []"
proof (induction es)
  case Nil
  show ?case by (simp add: List.map_filter_def)
next
  case (Cons e es)
  then show ?case by (cases e) (auto simp: List.map_filter_def)
qed

lemma cli_upload_file_single:
  assumes w0: "cli w0 = initial_cli_state"
    and tok: "validate_cmd_tokenize 10 uri = Tokenized n toks out"
    and shape: "toks = [s, bn] \<or> toks = [s, bn, ''.'']"
  shows "\<exists>es. list_all is_printf es \<and>
           snd (cli_upload_file CLI_VALID_REGULAR_FILE ul path uri w0) =
             w0\<lparr>effects := effects w0 @ es @ [Bridge_get_buckets],
                pending := pending w0 @ [Get_buckets_op],
                cli := initial_cli_state\<lparr>curr_cmd_req := Some ''upload-file'',
                                          bucket_name := Some bn,
                                          file_path := Some path\<rparr>\<rparr>"
proof -
  from shape have ne: "toks \<noteq> []" by auto
  from validate_tokens_count [OF tok ne] have n: "n = int (length toks)" and out: "out = []"
    by simp_all
  from shape show ?thesis
  proof
    assume t: "toks = [s, bn]"
    have "list_all is_printf [Printf (Target_file_name (get_filename_separator path))]"
      by simp
    moreover have "snd (cli_upload_file CLI_VALID_REGULAR_FILE ul path uri w0) =
             w0\<lparr>effects := effects w0 @ [Printf (Target_file_name (get_filename_separator path))]
                             @ [Bridge_get_buckets],
                pending := pending w0 @ [Get_buckets_op],
                cli := initial_cli_state\<lparr>curr_cmd_req := Some ''upload-file'',
                                          bucket_name := Some bn,
                                          file_path := Some path\<rparr>\<rparr>"
      using w0 t n out
      by (simp add: cli_upload_file_def tok token_at_def emits_def emit_def request_bucket_id_def
            bridge_get_buckets_def initial_cli_state_def Let_def)
    ultimately show ?thesis by blast
  next
    assume t: "toks = [s, bn, ''.'']"
    have "list_all is_printf []" by simp
    moreover have "snd (cli_upload_file CLI_VALID_REGULAR_FILE ul path uri w0) =
             w0\<lparr>effects := effects w0 @ [] @ [Bridge_get_buckets],
                pending := pending w0 @ [Get_buckets_op],
                cli := initial_cli_state\<lparr>curr_cmd_req := Some ''upload-file'',
                                          bucket_name := Some bn,
                                          file_path := Some path\<rparr>\<rparr>"
      using w0 t n out
      by (simp add: cli_upload_file_def tok token_at_def emits_def emit_def request_bucket_id_def
            bridge_get_buckets_def initial_cli_state_def Let_def)
    ultimately show ?thesis by blast
  qed
qed


lemma store_calls_append:
  "List.map_filter store_opts (xs @ ys) = List.map_filter store_opts xs @ List.map_filter store_opts ys"
  by (simp add: List.map_filter_def)


lemma line_fits_row: "l \<noteq> [] \<Longrightarrow> line_fits i l \<Longrightarrow> i < 256"
  by (cases l) (auto simp: line_fits_def)

lemma count_list_lines_overrun:
  "\<forall>l\<in>set ls. l \<noteq> [] \<Longrightarrow> i \<le> 256 \<Longrightarrow> 256 < i + length ls \<Longrightarrow> count_list_lines i ls = None"
proof (induction ls arbitrary: i)
  case Nil
  then show ?case by simp
next
  case (Cons l ls)
  show ?case
  proof (cases "line_fits i l")
    case False
    then show ?thesis by simp
  next
    case True
    with Cons.prems have "i < 256" by (intro line_fits_row [of l]) auto
    with Cons.prems have "count_list_lines (Suc i) ls = None"
      by (intro Cons.IH) auto
    with True show ?thesis by simp
  qed
qed

lemma read_lines_Nil: "read_lines 65536 [] = []"
  by (simp add: read_lines.simps fgets_def)


lemma tokens_of_item:
  assumes "item_ok dir f"
  shows "tokens_of (encode_item f) '':'' = [file_meta_id f, file_meta_filename f]"
proof -
  from assms have i: "file_meta_id f \<noteq> []" "CHR '':'' \<notin> set (file_meta_id f)"
    and n: "file_meta_filename f \<noteq> []" "CHR '':'' \<notin> set (file_meta_filename f)"
    by (simp_all add: item_ok_def)
  have "tokens_of (file_meta_id f @ CHR '':'' # file_meta_filename f) [CHR '':'']
          = file_meta_id f # tokens_of (file_meta_filename f) [CHR '':'']"
    using i by (rule tokens_of_token)
  also have "tokens_of (file_meta_filename f) [CHR '':''] = [file_meta_filename f]"
    using n by (rule tokens_of_last)
  finally show ?thesis by (simp add: encode_item_def)
qed

lemma download_list_ok:
  assumes "download_batch dir items w"
  shows "list_ok (map encode_item items)"
  using assms by (auto simp: download_batch_def list_ok_def item_ok_def encode_item_def)

lemma queue_download_dispatch:
  assumes b: "download_batch dir items w"
    and cur: "curr_up_file (cli w) = int k + 1" and k: "k < length items"
    and free: "fs w (dir @ file_meta_filename (items ! k)) = None"
    and cre: "can_create (dir @ file_meta_filename (items ! k)) w"
  shows "download_batch dir items (queue_next_cli_cmd w)"
    and "curr_up_file (cli (queue_next_cli_cmd w)) = int k + 2"
    and "executor_calls (queue_next_cli_cmd w)
           = executor_calls w @ [Enter_download_file (bucket_id (cli w))
                                   (Some (file_meta_id (items ! k)))
                                   (Some (dir @ file_meta_filename (items ! k)))]"
    and "pending (queue_next_cli_cmd w) = pending w @ [Resolve_file_op]"
    and "bucket_id (cli (queue_next_cli_cmd w)) = bucket_id (cli w)"
    and "fs (queue_next_cli_cmd w)
           = (fs w)(dir @ file_meta_filename (items ! k) \<mapsto> Regular [])"
    and "unwritable (queue_next_cli_cmd w) = unwritable w"
    and "sig_handles (queue_next_cli_cmd w)
           = sig_handles w @ [Download_signal (Some (transfer_states w))]"
    and "transfer_states (queue_next_cli_cmd w) = Suc (transfer_states w)"
proof -
  let ?f = "items ! k"
  let ?dest = "dir @ file_meta_filename ?f"
  have ok: "list_ok (map encode_item items)" using b by (rule download_list_ok)
  have rl: "read_list_lines (int k + 1) 0
              (read_lines 65536 (list_content (map encode_item items)))
              = Some (take (Suc k) (map encode_item items))"
    using ok by (simp add: list_ok_read_list nat_add_distrib)
  have ne: "items \<noteq> []" using k by auto
  have la: "last (take (Suc k) (map encode_item items)) = encode_item ?f"
    using k by (simp add: take_Suc_conv_app_nth take_map [symmetric])
  have iok: "item_ok dir ?f" using b k by (simp add: download_batch_def)
  have tk: "tokens_of (encode_item ?f) '':'' = [file_meta_id ?f, file_meta_filename ?f]"
    using iok by (rule tokens_of_item)
  have len: "\<not> 1024 \<le> length dir + length (file_meta_filename ?f)"
    using iok by (simp add: item_ok_def)
  have neq: "?dest \<noteq> dwnld_list"
    using b free by (auto simp: download_batch_def)
  from b obtain e where e: "bridge_handle w = Some e"
    by (auto simp: download_batch_def)
  have q: "queue_next_cli_cmd w = queue_download w"
    using b by (simp add: queue_next_cli_cmd_def download_batch_def)
  note defs = queue_download_def download_batch_def fopen_r_def rl ne la tk len Let_def
    token_at_def download_file_def download_resolve_def truncate_file_def emit_def
    can_create_def
  show "download_batch dir items (queue_next_cli_cmd w)"
    using b cur k e free cre neq unfolding q by (simp add: defs)
  show "curr_up_file (cli (queue_next_cli_cmd w)) = int k + 2"
    using b cur k e free cre unfolding q by (simp add: defs)
  show "executor_calls (queue_next_cli_cmd w)
           = executor_calls w @ [Enter_download_file (bucket_id (cli w))
                                   (Some (file_meta_id (items ! k)))
                                   (Some (dir @ file_meta_filename (items ! k)))]"
    using b cur k e free cre unfolding q by (simp add: defs executor_calls_def)
  show "pending (queue_next_cli_cmd w) = pending w @ [Resolve_file_op]"
    using b cur k e free cre unfolding q by (simp add: defs)
  show "bucket_id (cli (queue_next_cli_cmd w)) = bucket_id (cli w)"
    using b cur k e free cre unfolding q by (simp add: defs)
  show "fs (queue_next_cli_cmd w)
           = (fs w)(dir @ file_meta_filename (items ! k) \<mapsto> Regular [])"
    using b cur k e free cre unfolding q by (simp add: defs)
  show "unwritable (queue_next_cli_cmd w) = unwritable w"
    using b cur k e free cre unfolding q by (simp add: defs)
  show "sig_handles (queue_next_cli_cmd w)
           = sig_handles w @ [Download_signal (Some (transfer_states w))]"
    using b cur k e free cre unfolding q by (simp add: defs)
  show "transfer_states (queue_next_cli_cmd w) = Suc (transfer_states w)"
    using b cur k e free cre unfolding q by (simp add: defs)
qed

lemma queue_download_done:
  assumes b: "download_batch dir items w" and ne: "items \<noteq> []"
    and cur: "curr_up_file (cli w) = int (length items) + 1"
  shows "proc (queue_next_cli_cmd w) = Exited 0"
    and "executor_calls (queue_next_cli_cmd w) = executor_calls w"
    and "last (effects (queue_next_cli_cmd w)) = Printf Done_downloading_files"
proof -
  let ?f = "last items"
  have ok: "list_ok (map encode_item items)" using b by (rule download_list_ok)
  have rl: "read_list_lines (int (length items) + 1) 0
              (read_lines 65536 (list_content (map encode_item items)))
              = Some (map encode_item items)"
    using ok by (simp add: list_ok_read_list nat_add_distrib)
  have la: "last (map encode_item items) = encode_item ?f"
    using ne by (simp add: last_map)
  have iok: "item_ok dir ?f" using b ne by (simp add: download_batch_def)
  have tk: "tokens_of (encode_item ?f) '':'' = [file_meta_id ?f, file_meta_filename ?f]"
    using iok by (rule tokens_of_item)
  have q: "queue_next_cli_cmd w = queue_download w"
    using b by (simp add: queue_next_cli_cmd_def download_batch_def)
  note defs = queue_download_def download_batch_def fopen_r_def rl ne la tk Let_def
    emit_def exit_with_def
  show "proc (queue_next_cli_cmd w) = Exited 0"
    using b cur unfolding q by (simp add: defs)
  show "executor_calls (queue_next_cli_cmd w) = executor_calls w"
    using b cur unfolding q by (simp add: defs executor_calls_def)
  show "last (effects (queue_next_cli_cmd w)) = Printf Done_downloading_files"
    using b cur unfolding q by (simp add: defs)
qed

lemma step_download_done:
  assumes "download_batch dir items w" "items \<noteq> []" "Resolve_file_op \<in> set (pending w)"
  shows "step w (Download_done status) = queue_next_cli_cmd (download_completed status w)"
  using assms
  by (simp add: step_def download_file_complete_def download_completed_def download_batch_def
        emit_def take_op_def Let_def)

lemma download_completed_props:
  assumes "download_batch dir items w"
  shows "download_batch dir items (download_completed status w)"
    and "curr_up_file (cli (download_completed status w)) = curr_up_file (cli w)"
    and "bucket_id (cli (download_completed status w)) = bucket_id (cli w)"
    and "executor_calls (download_completed status w) = executor_calls w"
    and "pending (download_completed status w) = remove1 Resolve_file_op (pending w)"
    and "fs (download_completed status w) = fs w"
    and "unwritable (download_completed status w) = unwritable w"
    and "status \<noteq> 0 \<Longrightarrow>
           Printf (if status = decryption_error_code w then Unable_to_decrypt
                   else Download_failure status)
             \<in> set (effects (download_completed status w))"
    and "sig_handles (download_completed status w) = sig_handles w"
    and "transfer_states (download_completed status w) = transfer_states w"
  using assms
  by (simp_all add: download_completed_def download_batch_def emit_def take_op_def
        executor_calls_def Let_def)

lemma step_downloading:
  assumes d: "downloading dir items bid calls0 k w" and k: "k < length items"
  shows "downloading dir items bid calls0 (Suc k) (step w (Download_done status))"
proof -
  let ?c = "download_completed status w"
  let ?dest = "\<lambda>f. dir @ file_meta_filename f"
  from d have b: "download_batch dir items w" and p: "pending w = [Resolve_file_op]"
    and cur: "curr_up_file (cli w) = int k + 1" and bid: "bucket_id (cli w) = bid"
    and calls: "executor_calls w =
         calls0 @ map (\<lambda>f. Enter_download_file bid (Some (file_meta_id f))
                              (Some (?dest f))) (take k items)"
    and dist: "distinct (map file_meta_filename items)"
    and free: "\<forall>f\<in>set (drop k items). fs w (?dest f) = None \<and> can_create (?dest f) w"
    by (simp_all add: downloading_def)
  from k have ne: "items \<noteq> []" by auto
  have st: "step w (Download_done status) = queue_next_cli_cmd ?c"
    using b ne p by (intro step_download_done) auto
  note cp = download_completed_props [OF b, of status]
  have cur': "curr_up_file (cli ?c) = int k + 1" using cp(2) cur by simp
  have kin: "items ! k \<in> set (drop k items)"
    using k by (metis Cons_nth_drop_Suc list.set_intros(1))
  have free': "fs ?c (?dest (items ! k)) = None" "can_create (?dest (items ! k)) ?c"
    using free kin cp(6,7) by (auto simp: can_create_def)
  note q = queue_download_dispatch [OF cp(1) cur' k free']
  have later: "\<forall>f\<in>set (drop (Suc k) items).
           fs (queue_next_cli_cmd ?c) (?dest f) = None
           \<and> can_create (?dest f) (queue_next_cli_cmd ?c)"
  proof
    fix f assume f: "f \<in> set (drop (Suc k) items)"
    then have fin: "f \<in> set (drop k items)"
      by (metis Cons_nth_drop_Suc k list.set_intros(2))
    from f obtain i where i: "i < length (drop (Suc k) items)" "f = drop (Suc k) items ! i"
      by (auto simp: in_set_conv_nth)
    then have j: "Suc k + i < length items" "f = items ! (Suc k + i)"
      by auto
    have "(map file_meta_filename items ! (Suc k + i) = map file_meta_filename items ! k)
            = (Suc k + i = k)"
      using dist j(1) k by (intro nth_eq_iff_index_eq) simp_all
    with j k have "file_meta_filename f \<noteq> file_meta_filename (items ! k)"
      by simp
    then have "?dest f \<noteq> ?dest (items ! k)" by simp
    with free fin q(6,7) cp(6,7)
    show "fs (queue_next_cli_cmd ?c) (?dest f) = None
           \<and> can_create (?dest f) (queue_next_cli_cmd ?c)"
      by (auto simp: can_create_def)
  qed
  show ?thesis
    unfolding st downloading_def
    using q cp p bid calls k dist later by (simp add: take_Suc_conv_app_nth)
qed

lemma step_downloading_last:
  assumes d: "downloading dir items bid calls0 (length items) w" and ne: "items \<noteq> []"
  shows "proc (step w (Download_done status)) = Exited 0"
    and "executor_calls (step w (Download_done status))
           = calls0 @ map (\<lambda>f. Enter_download_file bid (Some (file_meta_id f))
                                  (Some (dir @ file_meta_filename f))) items"
proof -
  let ?c = "download_completed status w"
  from d have b: "download_batch dir items w" and p: "pending w = [Resolve_file_op]"
    and cur: "curr_up_file (cli w) = int (length items) + 1"
    and calls: "executor_calls w =
         calls0 @ map (\<lambda>f. Enter_download_file bid (Some (file_meta_id f))
                              (Some (dir @ file_meta_filename f))) items"
    by (simp_all add: downloading_def)
  have st: "step w (Download_done status) = queue_next_cli_cmd ?c"
    using b ne p by (intro step_download_done) auto
  note cp = download_completed_props [OF b, of status]
  have cur': "curr_up_file (cli ?c) = int (length items) + 1" using cp(2) cur by simp
  note q = queue_download_done [OF cp(1) ne cur']
  show "proc (step w (Download_done status)) = Exited 0"
    unfolding st using q by simp
  show "executor_calls (step w (Download_done status))
           = calls0 @ map (\<lambda>f. Enter_download_file bid (Some (file_meta_id f))
                                  (Some (dir @ file_meta_filename f))) items"
    unfolding st using q cp calls by simp
qed

lemma list_ok_count:
  assumes "list_ok ls"
  shows "count_list_lines 0 (read_lines 65536 (list_content ls)) = Some (length ls)"
proof -
  have "count_list_lines 0 (map (\<lambda>l. l @ [newline]) ls) = Some (0 + length ls)"
    using assms by (intro count_list_lines_map) (auto simp: list_ok_def)
  then show ?thesis using assms by (simp add: list_ok_read_lines)
qed

lemma validate_token_1:
  assumes "validate_cmd_tokenize cap s = Tokenized n toks out" "token_at toks 1 = Some bn"
  shows "out = []"
proof -
  from assms(2) have "toks \<noteq> []" by (auto simp: token_at_def)
  with validate_tokens_count [OF assms(1)] show ?thesis by simp
qed

lemma cli_upload_file_dir:
  assumes w0: "cli w0 = initial_cli_state" and r0: "proc w0 = Running"
    and L: "fs w0 L = Some (Regular (list_content ls))" and ok: "list_ok ls" and ne: "ls \<noteq> []"
    and tok: "validate_cmd_tokenize 10 uri = Tokenized n toks out"
    and bn: "token_at toks 1 = Some bn"
  shows "snd (cli_upload_file CLI_VALID_DIR (Some L) path uri w0) =
           w0\<lparr>effects := effects w0 @ [Bridge_get_buckets],
              pending := pending w0 @ [Get_buckets_op],
              cli := initial_cli_state\<lparr>file_name := Some L,
                                        total_files := int (length ls),
                                        curr_up_file := 1,
                                        curr_cmd_req := Some ''upload-file'',
                                        bucket_name := Some bn\<rparr>\<rparr>"
  using w0 r0 L ne validate_token_1 [OF tok bn] bn
  by (simp add: cli_upload_file_def list_ok_count [OF ok] tok emits_def emit_def
        request_bucket_id_def bridge_get_buckets_def initial_cli_state_def Let_def)

lemma upload_start:
  assumes w0: "cli w0 = initial_cli_state" and r0: "proc w0 = Running"
    and p0: "pending w0 = []" and m0: "sig_malloc_ok w0" and h0: "bridge_handle w0 \<noteq> None"
    and L: "fs w0 L = Some (Regular (list_content ls))" and ok: "list_ok ls" and ne: "ls \<noteq> []"
    and tok: "validate_cmd_tokenize 10 uri = Tokenized n toks out"
    and bn: "token_at toks 1 = Some bn"
    and found: "find (\<lambda>b. bucket_meta_name b = bn) buckets = Some b"
  shows "uploading L ls (Some (bucket_meta_id b)) (executor_calls w0) 1
           (run (snd (cli_upload_file CLI_VALID_DIR (Some L) path uri w0))
              [Get_buckets_done code buckets])"
    and "sig_handles (run (snd (cli_upload_file CLI_VALID_DIR (Some L) path uri w0))
                        [Get_buckets_done code buckets])
           = sig_handles w0 @ [Upload_signal (Some (transfer_states w0))]"
    and "transfer_states (run (snd (cli_upload_file CLI_VALID_DIR (Some L) path uri w0))
                            [Get_buckets_done code buckets])
           = Suc (transfer_states w0)"
proof -
  let ?start = "snd (cli_upload_file CLI_VALID_DIR (Some L) path uri w0)"
  note start = cli_upload_file_dir [OF w0 r0 L ok ne tok bn, of path]
  from find_Some_split [OF found] obtain pre post where
    split: "buckets = pre @ b # post" and nb: "bucket_meta_name b = bn"
    and pre: "\<forall>x\<in>set pre. bucket_meta_name x \<noteq> bn"
    by blast
  let ?t = "take_op Get_buckets_op ?start"
  have t: "proc ?t = Running" "bucket_name (cli ?t) = Some bn"
    "curr_cmd_req (cli ?t) = Some ''upload-file''"
    unfolding start using r0 by (simp_all add: take_op_def)
  let ?q = "?t\<lparr>effects := effects ?t @ bucket_status_effects code (pre @ b # post)
                             @ [Printf (Bucket_listing (bucket_meta_id b) bn)],
                cli := (cli ?t)\<lparr>bucket_id := Some (bucket_meta_id b),
                               next_cmd_req := Some ''upload-file-1''\<rparr>\<rparr>"
  have "run ?start [Get_buckets_done code buckets]
          = get_bucket_id_callback code buckets ?t"
    unfolding run_single start using r0 p0 by (simp add: step_def)
  also have "\<dots> = queue_next_cli_cmd ?q"
    unfolding split
    by (subst get_bucket_id_callback_match [OF t pre nb]) simp_all
  finally have q: "run ?start [Get_buckets_done code buckets] = queue_next_cli_cmd ?q" .
  have b: "upload_batch L ls ?q"
    using r0 L m0 h0 by (simp add: upload_batch_def start take_op_def initial_cli_state_def)
  have cur: "curr_up_file (cli ?q) = int 0 + 1"
    by (simp add: start take_op_def)
  have k: "0 < length ls" using ne by simp
  note d = queue_upload_dispatch [OF b ok cur k]
  have pq: "pending ?q = []" using p0 by (simp add: start take_op_def)
  have cq: "executor_calls ?q = executor_calls w0"
    using executor_calls_printf [OF bucket_status_effects_printf, of code "pre @ b # post"]
    by (simp add: start take_op_def executor_calls_def)
  have bq: "bucket_id (cli ?q) = Some (bucket_meta_id b)" by simp
  have sq: "sig_handles ?q = sig_handles w0" "transfer_states ?q = transfer_states w0"
    by (simp_all add: start take_op_def)
  show "uploading L ls (Some (bucket_meta_id b)) (executor_calls w0) 1
          (run ?start [Get_buckets_done code buckets])"
    unfolding q uploading_def using d pq cq bq ne
    by (simp add: take_Suc_conv_app_nth)
  show "sig_handles (run ?start [Get_buckets_done code buckets])
          = sig_handles w0 @ [Upload_signal (Some (transfer_states w0))]"
    unfolding q using d(6) sq by simp
  show "transfer_states (run ?start [Get_buckets_done code buckets])
          = Suc (transfer_states w0)"
    unfolding q using d(7) sq by simp
qed


lemma run_Cons: "run w (ev # evs) = run (step w ev) evs"
  by (simp add: run_def)

lemma uploading_run_all:
  assumes u: "uploading L ls bid calls0 1 w" and ok: "list_ok ls" and ne: "ls \<noteq> []"
    and n: "length sts = length ls"
  shows "proc (run w (map Upload_done sts @ evs)) = Exited 0"
    and "executor_calls (run w (map Upload_done sts @ evs))
           = calls0 @ map (\<lambda>l. Enter_upload_file bid (Some l)) ls"
proof -
  from n ne obtain sts' s where sts: "sts = sts' @ [s]"
    by (cases sts rule: rev_cases) auto
  with n have l: "length sts' < length ls" "Suc (length sts') = length ls" by auto
  let ?m = "run w (map Upload_done sts')"
  have "uploading L ls bid calls0 (Suc (length sts')) ?m"
    using u ok l(1) by (rule run_uploading)
  then have um: "uploading L ls bid calls0 (length ls) ?m"
    using l(2) by simp
  note fin = step_uploading_last [OF um ok ne, of s]
  have r: "run w (map Upload_done sts @ evs) = run (step ?m (Upload_done s)) evs"
    by (simp add: sts run_append run_Cons)
  have stop: "run (step ?m (Upload_done s)) evs = step ?m (Upload_done s)"
    using fin(1) by (intro run_stopped) simp
  show "proc (run w (map Upload_done sts @ evs)) = Exited 0"
    unfolding r stop by (rule fin(1))
  show "executor_calls (run w (map Upload_done sts @ evs))
           = calls0 @ map (\<lambda>l. Enter_upload_file bid (Some l)) ls"
    unfolding r stop by (rule fin(2))
qed

lemma upload_directory_run:
  assumes w0: "cli w0 = initial_cli_state" and r0: "proc w0 = Running"
    and p0: "pending w0 = []" and m0: "sig_malloc_ok w0" and h0: "bridge_handle w0 \<noteq> None"
    and L: "fs w0 L = Some (Regular (list_content ls))" and ok: "list_ok ls" and ne: "ls \<noteq> []"
    and tok: "validate_cmd_tokenize 10 uri = Tokenized n toks out"
    and bn: "token_at toks 1 = Some bn"
    and found: "find (\<lambda>b. bucket_meta_name b = bn) buckets = Some b"
  shows "length sts = length ls \<Longrightarrow>
         proc (run (snd (cli_upload_file CLI_VALID_DIR (Some L) path uri w0))
                 (Get_buckets_done code buckets # map Upload_done sts @ evs)) = Exited 0
         \<and> executor_calls (run (snd (cli_upload_file CLI_VALID_DIR (Some L) path uri w0))
                 (Get_buckets_done code buckets # map Upload_done sts @ evs))
             = executor_calls w0
                 @ map (\<lambda>l. Enter_upload_file (Some (bucket_meta_id b)) (Some l)) ls"
    and "length sts < length ls \<Longrightarrow>
         proc (run (snd (cli_upload_file CLI_VALID_DIR (Some L) path uri w0))
                 (Get_buckets_done code buckets # map Upload_done sts)) = Running
         \<and> executor_calls (run (snd (cli_upload_file CLI_VALID_DIR (Some L) path uri w0))
                 (Get_buckets_done code buckets # map Upload_done sts))
             = executor_calls w0
                 @ map (\<lambda>l. Enter_upload_file (Some (bucket_meta_id b)) (Some l))
                     (take (Suc (length sts)) ls)"
proof -
  let ?start = "snd (cli_upload_file CLI_VALID_DIR (Some L) path uri w0)"
  let ?w1 = "step ?start (Get_buckets_done code buckets)"
  have u: "uploading L ls (Some (bucket_meta_id b)) (executor_calls w0) 1 ?w1"
    using upload_start(1) [OF assms, of path code] by (simp add: run_single)
  have r: "\<And>rest. run ?start (Get_buckets_done code buckets # rest) = run ?w1 rest"
    by (rule run_Cons)
  show "length sts = length ls \<Longrightarrow>
         proc (run ?start (Get_buckets_done code buckets # map Upload_done sts @ evs)) = Exited 0
         \<and> executor_calls (run ?start (Get_buckets_done code buckets # map Upload_done sts @ evs))
             = executor_calls w0
                 @ map (\<lambda>l. Enter_upload_file (Some (bucket_meta_id b)) (Some l)) ls"
    unfolding r using uploading_run_all [OF u ok ne] by simp
  show "length sts < length ls \<Longrightarrow>
         proc (run ?start (Get_buckets_done code buckets # map Upload_done sts)) = Running
         \<and> executor_calls (run ?start (Get_buckets_done code buckets # map Upload_done sts))
             = executor_calls w0
                 @ map (\<lambda>l. Enter_upload_file (Some (bucket_meta_id b)) (Some l))
                     (take (Suc (length sts)) ls)"
    unfolding r using run_uploading [OF u ok, of sts]
    by (simp add: uploading_def upload_batch_def)
qed

lemma list_content_Cons: "list_content (l # ls) = l @ newline # list_content ls"
  by (simp add: list_content_def)

lemma list_files_loop_wildcard:
  assumes "curr_cmd_req (cli w) = Some ''download-file''" "file_name (cli w) = Some ''*''"
    and "\<forall>f\<in>set files. file_meta_filename f \<noteq> ''*''"
    and "fs w dwnld_list = Some (Regular c)"
  shows "list_files_loop True files w
           = w\<lparr>fs := (fs w)(dwnld_list \<mapsto> Regular (c @ list_content (map encode_item files)))\<rparr>"
  using assms
proof (induction files arbitrary: w c)
  case Nil
  then have "(fs w)(dwnld_list \<mapsto> Regular c) = fs w" by (intro fun_upd_idem) simp
  then show ?case by (simp add: list_content_def)
next
  case (Cons f files)
  let ?w2 = "w\<lparr>fs := (fs w)(dwnld_list \<mapsto> Regular (c @ encode_item f @ [newline]))\<rparr>"
  have step: "list_files_loop True (f # files) w = list_files_loop True files ?w2"
    using Cons.prems by (auto simp: append_file_def encode_item_def Let_def)
  note step
  also have "list_files_loop True files ?w2
          = ?w2\<lparr>fs := (fs ?w2)(dwnld_list \<mapsto>
                     Regular ((c @ encode_item f @ [newline]) @ list_content (map encode_item files)))\<rparr>"
    using Cons.prems by (intro Cons.IH) auto
  also have "\<dots> = w\<lparr>fs := (fs w)(dwnld_list \<mapsto>
                     Regular (c @ list_content (map encode_item (f # files))))\<rparr>"
    by (simp add: list_content_Cons)
  finally show ?case .
qed

lemma cli_download_file_wildcard:
  assumes w0: "cli w0 = initial_cli_state"
    and dir: "fs w0 dir = Some Directory"
    and tok: "validate_cmd_tokenize 10 uri = Tokenized n toks out"
    and bn: "token_at toks 1 = Some bn" and star: "token_at toks 2 = Some ''*''"
  shows "snd (cli_download_file (Some dir) uri w0) =
           w0\<lparr>effects := effects w0 @ [Bridge_get_buckets],
              pending := pending w0 @ [Get_buckets_op],
              cli := initial_cli_state\<lparr>curr_cmd_req := Some ''download-file'',
                                        bucket_name := Some bn,
                                        file_name := Some ''*'',
                                        file_path := Some dir\<rparr>\<rparr>"
  using w0 dir validate_token_1 [OF tok bn] bn star
  by (simp add: cli_download_file_def tok emits_def emit_def check_file_path_def
        bridge_get_buckets_def initial_cli_state_def Let_def)

lemma list_files_callback_wildcard:
  assumes r: "proc w = Running" and cmd: "curr_cmd_req (cli w) = Some ''download-file''"
    and star: "file_name (cli w) = Some ''*''"
    and names: "\<forall>f\<in>set files. file_meta_filename f \<noteq> ''*''"
    and cre: "can_create dwnld_list w" and ne: "files \<noteq> []"
  shows "list_files_callback 200 files w =
           queue_next_cli_cmd
             (w\<lparr>fs := (fs w)(dwnld_list \<mapsto> Regular (list_content (map encode_item files))),
                cli := (cli w)\<lparr>file_id := None, total_files := int (length files),
                               curr_up_file := 1,
                               next_cmd_req := Some ''download-file-1''\<rparr>\<rparr>)"
proof -
  let ?w4 = "w\<lparr>fs := (fs w)(dwnld_list \<mapsto> Regular []),
               cli := (cli w)\<lparr>file_id := None, total_files := int (length files)\<rparr>\<rparr>"
  have l: "list_files_loop True files ?w4
             = ?w4\<lparr>fs := (fs ?w4)(dwnld_list \<mapsto> Regular ([] @ list_content (map encode_item files)))\<rparr>"
    using cmd star names by (intro list_files_loop_wildcard) simp_all
  show ?thesis
    using r cmd star cre ne
    by (simp add: list_files_callback_def Let_def truncate_file_def can_create_def l)
qed



lemma run_downloading:
  assumes d: "downloading dir items bid calls0 1 w"
  shows "length sts < length items \<Longrightarrow>
         downloading dir items bid calls0 (Suc (length sts)) (run w (map Download_done sts))"
proof (induction sts rule: rev_induct)
  case Nil
  with d show ?case by (simp add: run_def)
next
  case (snoc s sts)
  then have "downloading dir items bid calls0 (Suc (length sts)) (run w (map Download_done sts))"
    by simp
  from step_downloading [OF this, of s] snoc.prems
  show ?case by (simp add: run_snoc)
qed

lemma downloading_run_all:
  assumes d: "downloading dir items bid calls0 1 w" and ne: "items \<noteq> []"
    and n: "length sts = length items"
  shows "proc (run w (map Download_done sts @ evs)) = Exited 0"
    and "executor_calls (run w (map Download_done sts @ evs))
           = calls0 @ map (\<lambda>f. Enter_download_file bid (Some (file_meta_id f))
                                  (Some (dir @ file_meta_filename f))) items"
proof -
  from n ne obtain sts' s where sts: "sts = sts' @ [s]"
    by (cases sts rule: rev_cases) auto
  with n have l: "length sts' < length items" "Suc (length sts') = length items" by auto
  let ?m = "run w (map Download_done sts')"
  have "downloading dir items bid calls0 (Suc (length sts')) ?m"
    using d l(1) by (rule run_downloading)
  then have um: "downloading dir items bid calls0 (length items) ?m"
    using l(2) by simp
  note fin = step_downloading_last [OF um ne, of s]
  have r: "run w (map Download_done sts @ evs) = run (step ?m (Download_done s)) evs"
    by (simp add: sts run_append run_Cons)
  have stop: "run (step ?m (Download_done s)) evs = step ?m (Download_done s)"
    using fin(1) by (intro run_stopped) simp
  show "proc (run w (map Download_done sts @ evs)) = Exited 0"
    unfolding r stop by (rule fin(1))
  show "executor_calls (run w (map Download_done sts @ evs))
           = calls0 @ map (\<lambda>f. Enter_download_file bid (Some (file_meta_id f))
                                  (Some (dir @ file_meta_filename f))) items"
    unfolding r stop by (rule fin(2))
qed

lemma tokenize_docs:
  "validate_cmd_tokenize 10 ''storj://docs'' = Tokenized 2 [''storj:'', ''docs''] []"
  "validate_cmd_tokenize 10 ''storj://docs/*'' = Tokenized 3 [''storj:'', ''docs'', ''*''] []"
  by (simp_all add: validate_cmd_tokenize_def strpos_def tokens_of.simps strtok_def)



lemma uploading_emit:
  "uploading L ls bid calls0 k w \<Longrightarrow> \<not> is_executor_call e \<Longrightarrow>
   uploading L ls bid calls0 k (emit e w)"
  by (simp add: uploading_def upload_batch_def emit_def executor_calls_def)

lemma downloading_emit:
  "downloading dir items bid calls0 k w \<Longrightarrow> \<not> is_executor_call e \<Longrightarrow>
   downloading dir items bid calls0 k (emit e w)"
  by (simp add: downloading_def download_batch_def emit_def executor_calls_def can_create_def)



text \<open>
  A wildcard download up to the point where the list file is written and the queue
  manager is entered for the first item.
\<close>

lemma wildcard_listing_run:
  assumes w0: "cli w0 = initial_cli_state" and r0: "proc w0 = Running"
    and p0: "pending w0 = []"
    and dir: "fs w0 dir = Some Directory"
    and tok: "validate_cmd_tokenize 10 uri = Tokenized n toks out"
    and bn: "token_at toks 1 = Some bn" and star: "token_at toks 2 = Some ''*''"
    and found: "find (\<lambda>b. bucket_meta_name b = bn) buckets = Some b"
    and ne: "items \<noteq> []"
    and names: "\<forall>f\<in>set items. file_meta_filename f \<noteq> ''*''"
    and cre: "can_create dwnld_list w0"
  shows "\<exists>q. run (snd (cli_download_file (Some dir) uri w0))
                [Get_buckets_done code buckets, List_files_done 200 items]
               = queue_next_cli_cmd q
           \<and> fs q = (fs w0)(dwnld_list \<mapsto> Regular (list_content (map encode_item items)))
           \<and> curr_cmd_req (cli q) = Some ''download-file''
           \<and> next_cmd_req (cli q) = Some ''download-file-1''
           \<and> file_path (cli q) = Some dir
           \<and> bucket_id (cli q) = Some (bucket_meta_id b)
           \<and> total_files (cli q) = int (length items)
           \<and> curr_up_file (cli q) = 1
           \<and> proc q = Running \<and> pending q = []
           \<and> executor_calls q = executor_calls w0
           \<and> unwritable q = unwritable w0 \<and> stdin_lines q = stdin_lines w0
           \<and> sig_malloc_ok q = sig_malloc_ok w0 \<and> bridge_handle q = bridge_handle w0"
proof -
  let ?start = "snd (cli_download_file (Some dir) uri w0)"
  note start = cli_download_file_wildcard [OF w0 dir tok bn star]
  from find_Some_split [OF found] obtain pre post where
    split: "buckets = pre @ b # post" and nb: "bucket_meta_name b = bn"
    and pre: "\<forall>x\<in>set pre. bucket_meta_name x \<noteq> bn"
    by blast
  let ?t = "take_op Get_buckets_op ?start"
  have t: "proc ?t = Running" "bucket_name (cli ?t) = Some bn"
    "curr_cmd_req (cli ?t) = Some ''download-file''"
    unfolding start using r0 by (simp_all add: take_op_def)
  let ?q = "?t\<lparr>effects := effects ?t @ bucket_status_effects code (pre @ b # post)
                             @ [Printf (Bucket_listing (bucket_meta_id b) bn)],
                cli := (cli ?t)\<lparr>bucket_id := Some (bucket_meta_id b),
                               next_cmd_req := Some ''list-files-1''\<rparr>\<rparr>"
  let ?W1 = "bridge_list_files (Some (bucket_meta_id b)) ?q"
  have "step ?start (Get_buckets_done code buckets)
          = get_bucket_id_callback code buckets ?t"
    unfolding start using r0 p0 by (simp add: step_def)
  also have "\<dots> = queue_next_cli_cmd ?q"
    unfolding split
    by (subst get_bucket_id_callback_match [OF t pre nb]) simp_all
  also have "\<dots> = ?W1"
    by (simp add: queue_next_cli_cmd_def start take_op_def)
  finally have s1: "step ?start (Get_buckets_done code buckets) = ?W1" .
  let ?t2 = "take_op List_files_op ?W1"
  have t2: "proc ?t2 = Running" "curr_cmd_req (cli ?t2) = Some ''download-file''"
    "file_name (cli ?t2) = Some ''*''" "can_create dwnld_list ?t2"
    using r0 cre
    by (simp_all add: start take_op_def bridge_list_files_def emit_def can_create_def)
  let ?q2 = "?t2\<lparr>fs := (fs ?t2)(dwnld_list \<mapsto> Regular (list_content (map encode_item items))),
                cli := (cli ?t2)\<lparr>file_id := None, total_files := int (length items),
                               curr_up_file := 1,
                               next_cmd_req := Some ''download-file-1''\<rparr>\<rparr>"
  have "step ?W1 (List_files_done 200 items) = list_files_callback 200 items ?t2"
    using r0 by (simp add: step_def start take_op_def bridge_list_files_def emit_def)
  also have "\<dots> = queue_next_cli_cmd ?q2"
    by (rule list_files_callback_wildcard [OF t2(1,2,3) names t2(4) ne])
  finally have s2: "step ?W1 (List_files_done 200 items) = queue_next_cli_cmd ?q2" .
  have r: "run ?start [Get_buckets_done code buckets, List_files_done 200 items]
             = queue_next_cli_cmd ?q2"
    by (simp only: run_Cons s1 s2) (simp add: run_def)
  have cq: "executor_calls ?q2 = executor_calls w0"
    using executor_calls_printf [OF bucket_status_effects_printf, of code "pre @ b # post"]
    by (simp add: start take_op_def bridge_list_files_def emit_def executor_calls_def)
  have "fs ?q2 = (fs w0)(dwnld_list \<mapsto> Regular (list_content (map encode_item items)))"
    "curr_cmd_req (cli ?q2) = Some ''download-file''"
    "next_cmd_req (cli ?q2) = Some ''download-file-1''"
    "file_path (cli ?q2) = Some dir"
    "bucket_id (cli ?q2) = Some (bucket_meta_id b)"
    "total_files (cli ?q2) = int (length items)"
    "curr_up_file (cli ?q2) = 1"
    "proc ?q2 = Running" "pending ?q2 = []"
    "unwritable ?q2 = unwritable w0" "stdin_lines ?q2 = stdin_lines w0"
    "sig_malloc_ok ?q2 = sig_malloc_ok w0" "bridge_handle ?q2 = bridge_handle w0"
    using r0 p0
    by (simp_all add: start take_op_def bridge_list_files_def emit_def initial_cli_state_def)
  with r cq show ?thesis by blast
qed










lemma step_uploading_signals:
  assumes u: "uploading L ls bid calls0 k w" and ok: "list_ok ls" and k: "k < length ls"
  shows "sig_handles (step w (Upload_done status))
           = sig_handles w @ [Upload_signal (Some (transfer_states w))]"
    and "transfer_states (step w (Upload_done status)) = Suc (transfer_states w)"
proof -
  let ?c = "upload_completed status w"
  from u have b: "upload_batch L ls w" and p: "pending w = [Store_file_op]"
    and cur: "curr_up_file (cli w) = int k + 1"
    by (simp_all add: uploading_def)
  from k have ne: "ls \<noteq> []" by auto
  have st: "step w (Upload_done status) = queue_next_cli_cmd ?c"
    using b ne p by (intro step_upload_done) auto
  note cp = upload_completed_props [OF b, of status]
  have cur': "curr_up_file (cli ?c) = int k + 1" using cp(2) cur by simp
  note d = queue_upload_dispatch [OF cp(1) ok cur' k]
  show "sig_handles (step w (Upload_done status))
           = sig_handles w @ [Upload_signal (Some (transfer_states w))]"
    unfolding st using d(6) cp(7,8) by simp
  show "transfer_states (step w (Upload_done status)) = Suc (transfer_states w)"
    unfolding st using d(7) cp(8) by simp
qed

lemma step_downloading_signals:
  assumes d: "downloading dir items bid calls0 k w" and k: "k < length items"
  shows "sig_handles (step w (Download_done status))
           = sig_handles w @ [Download_signal (Some (transfer_states w))]"
    and "transfer_states (step w (Download_done status)) = Suc (transfer_states w)"
proof -
  let ?c = "download_completed status w"
  let ?dest = "\<lambda>f. dir @ file_meta_filename f"
  from d have b: "download_batch dir items w" and p: "pending w = [Resolve_file_op]"
    and cur: "curr_up_file (cli w) = int k + 1"
    and free: "\<forall>f\<in>set (drop k items). fs w (?dest f) = None \<and> can_create (?dest f) w"
    by (simp_all add: downloading_def)
  from k have ne: "items \<noteq> []" by auto
  have st: "step w (Download_done status) = queue_next_cli_cmd ?c"
    using b ne p by (intro step_download_done) auto
  note cp = download_completed_props [OF b, of status]
  have cur': "curr_up_file (cli ?c) = int k + 1" using cp(2) cur by simp
  have kin: "items ! k \<in> set (drop k items)"
    using k by (metis Cons_nth_drop_Suc list.set_intros(1))
  have free': "fs ?c (?dest (items ! k)) = None" "can_create (?dest (items ! k)) ?c"
    using free kin cp(6,7) by (auto simp: can_create_def)
  note q = queue_download_dispatch [OF cp(1) cur' k free']
  show "sig_handles (step w (Download_done status))
           = sig_handles w @ [Download_signal (Some (transfer_states w))]"
    unfolding st using q(8) cp(9,10) by simp
  show "transfer_states (step w (Download_done status)) = Suc (transfer_states w)"
    unfolding st using q(9) cp(10) by simp
qed

lemma upload_signals_step:
  assumes "uploading L ls bid calls0 k w" "list_ok ls" "k < length ls" "upload_signals n0 k w"
  shows "upload_signals n0 (Suc k) (step w (Upload_done status))"
  using step_uploading_signals [OF assms(1,2,3), of status] assms(4)
  by (simp add: upload_signals_def)

lemma download_signals_step:
  assumes "downloading dir items bid calls0 k w" "k < length items" "download_signals n0 k w"
  shows "download_signals n0 (Suc k) (step w (Download_done status))"
  using step_downloading_signals [OF assms(1,2), of status] assms(3)
  by (simp add: download_signals_def)

lemma run_upload_signals:
  assumes u: "uploading L ls bid calls0 1 w" and ok: "list_ok ls"
    and s: "upload_signals n0 1 w"
  shows "length sts < length ls \<Longrightarrow>
         upload_signals n0 (Suc (length sts)) (run w (map Upload_done sts))"
proof (induction sts rule: rev_induct)
  case Nil
  with s show ?case by (simp add: run_def)
next
  case (snoc x sts)
  then have l: "length sts < length ls" "Suc (length sts) < length ls" by simp_all
  have a: "uploading L ls bid calls0 (Suc (length sts)) (run w (map Upload_done sts))"
    using u ok l(1) by (rule run_uploading)
  have b: "upload_signals n0 (Suc (length sts)) (run w (map Upload_done sts))"
    using l(1) by (rule snoc.IH)
  from upload_signals_step [OF a ok l(2) b, of x]
  show ?case by (simp add: run_snoc)
qed

lemma run_download_signals:
  assumes d: "downloading dir items bid calls0 1 w"
    and s: "download_signals n0 1 w"
  shows "length sts < length items \<Longrightarrow>
         download_signals n0 (Suc (length sts)) (run w (map Download_done sts))"
proof (induction sts rule: rev_induct)
  case Nil
  with s show ?case by (simp add: run_def)
next
  case (snoc x sts)
  then have l: "length sts < length items" "Suc (length sts) < length items" by simp_all
  have a: "downloading dir items bid calls0 (Suc (length sts)) (run w (map Download_done sts))"
    using d l(1) by (rule run_downloading)
  have b: "download_signals n0 (Suc (length sts)) (run w (map Download_done sts))"
    using l(1) by (rule snoc.IH)
  from download_signals_step [OF a l(2) b, of x]
  show ?case by (simp add: run_snoc)
qed




text \<open>
  The name of a single uploaded file. Through \<^verbatim>\<open>cli_upload_file\<close> and \<^verbatim>\<open>upload_file\<close>
  the option record handed to the bridge names the file by the part of the local path
  after its last \<^verbatim>\<open>/\<close>, for a destination of two tokens and for one of three with the
  name \<^verbatim>\<open>.\<close>. In the \<^verbatim>\<open>cp\<close> branch of \<^verbatim>\<open>main\<close> a destination of two tokens gets the
  same name, and every destination of three tokens overruns the token array.
\<close>

lemma single_upload_name:
  assumes w0: "cli w0 = initial_cli_state" and r0: "proc w0 = Running"
    and p0: "pending w0 = []" and m0: "sig_malloc_ok w0"
    and tok: "validate_cmd_tokenize 10 uri = Tokenized n toks out"
    and shape: "toks = [s, bn] \<or> toks = [s, bn, ''.'']"
    and found: "find (\<lambda>b. bucket_meta_name b = bn) buckets = Some b"
  shows "\<exists>opts. store_calls (run (snd (cli_upload_file CLI_VALID_REGULAR_FILE ul path uri w0))
                              [Get_buckets_done code buckets])
                  = store_calls w0 @ [opts]
           \<and> opts_file_name opts = basename_spec path
           \<and> opts_bucket_id opts = Some (bucket_meta_id b)"
proof -
  let ?start = "snd (cli_upload_file CLI_VALID_REGULAR_FILE ul path uri w0)"
  from cli_upload_file_single [OF w0 tok shape, of ul path] obtain es where
    es: "list_all is_printf es"
    and start: "?start =
             w0\<lparr>effects := effects w0 @ es @ [Bridge_get_buckets],
                pending := pending w0 @ [Get_buckets_op],
                cli := initial_cli_state\<lparr>curr_cmd_req := Some ''upload-file'',
                                          bucket_name := Some bn,
                                          file_path := Some path\<rparr>\<rparr>"
    by blast
  from find_Some_split [OF found] obtain pre post where
    split: "buckets = pre @ b # post" and nb: "bucket_meta_name b = bn"
    and pre: "\<forall>x\<in>set pre. bucket_meta_name x \<noteq> bn"
    by blast
  let ?t = "take_op Get_buckets_op ?start"
  have t: "proc ?t = Running" "bucket_name (cli ?t) = Some bn"
    "curr_cmd_req (cli ?t) = Some ''upload-file''"
    unfolding start using r0 by (simp_all add: take_op_def)
  have "run ?start [Get_buckets_done code buckets]
          = get_bucket_id_callback code buckets ?t"
    unfolding run_single start using r0 p0 by (simp add: step_def)
  also have "\<dots> = queue_next_cli_cmd
             (?t\<lparr>effects := effects ?t @ bucket_status_effects code (pre @ b # post)
                             @ [Printf (Bucket_listing (bucket_meta_id b) bn)],
                cli := (cli ?t)\<lparr>bucket_id := Some (bucket_meta_id b),
                               next_cmd_req := Some ''upload-file-1''\<rparr>\<rparr>)"
    unfolding split
    by (subst get_bucket_id_callback_match [OF t pre nb]) simp_all
  finally have q: "run ?start [Get_buckets_done code buckets]
      = queue_next_cli_cmd
             (?t\<lparr>effects := effects ?t @ bucket_status_effects code (pre @ b # post)
                             @ [Printf (Bucket_listing (bucket_meta_id b) bn)],
                cli := (cli ?t)\<lparr>bucket_id := Some (bucket_meta_id b),
                               next_cmd_req := Some ''upload-file-1''\<rparr>\<rparr>)" .
  have pf: "List.map_filter store_opts es = []"
    "List.map_filter store_opts (bucket_status_effects code (pre @ b # post)) = []"
    using es bucket_status_effects_printf by (simp_all add: store_calls_printf)
  show ?thesis
    unfolding q using m0 p0
    by (cases "bridge_handle w0")
       (simp_all add: start queue_next_cli_cmd_def queue_upload_def fopen_r_def initial_cli_state_def
          take_op_def upload_file_def emit_def Let_def store_calls_def store_calls_append pf
          get_filename_separator_basename List.map_filter_def [of store_opts "[_]"]
          List.map_filter_def [of store_opts "[_, _]"])
qed

lemma single_upload_name_example:
  "(let w0 = initial_world Map.empty [] Map.empty;
        buckets = [Bucket_meta ''id1'' ''docs'']
    in cli w0 = initial_cli_state \<and> proc w0 = Running \<and> pending w0 = [] \<and> sig_malloc_ok w0
       \<and> validate_cmd_tokenize 10 ''storj://docs/.'' = Tokenized 3 [''storj:'', ''docs'', ''.''] []
       \<and> find (\<lambda>b. bucket_meta_name b = ''docs'') buckets = Some (Bucket_meta ''id1'' ''docs'')
       \<and> (\<exists>opts. store_calls (run (snd (cli_upload_file CLI_VALID_REGULAR_FILE None
                                          ''/home/u/a.txt'' ''storj://docs/.'' w0))
                                 [Get_buckets_done 200 buckets]) = [opts]
              \<and> opts_file_name opts = ''a.txt'' \<and> opts_bucket_id opts = Some ''id1''))"
proof -
  let ?w0 = "initial_world Map.empty [] Map.empty"
  have h: "cli ?w0 = initial_cli_state" "proc ?w0 = Running" "pending ?w0 = []"
    "sig_malloc_ok ?w0"
    by (simp_all add: initial_world_def)
  have tok: "validate_cmd_tokenize 10 ''storj://docs/.'' = Tokenized 3 [''storj:'', ''docs'', ''.''] []"
    by (simp add: validate_cmd_tokenize_def strpos_def tokens_of.simps strtok_def)
  have shape: "[''storj:'', ''docs'', ''.''] = [''storj:'', ''docs'']
                 \<or> [''storj:'', ''docs'', ''.''] = [''storj:'', ''docs'', ''.'']"
    by simp
  have found: "find (\<lambda>b. bucket_meta_name b = ''docs'') [Bucket_meta ''id1'' ''docs'']
                 = Some (Bucket_meta ''id1'' ''docs'')"
    by simp
  have base: "basename_spec ''/home/u/a.txt'' = ''a.txt''"
    by (simp add: basename_spec_def)
  have sc: "store_calls ?w0 = []"
    by (simp add: store_calls_def initial_world_def List.map_filter_def)
  from single_upload_name [OF h tok shape found, of None "''/home/u/a.txt''" 200]
  show ?thesis
    using h tok found by (simp add: Let_def base sc)
qed

lemma main_cp_two_tokens:
  assumes "validate_cmd_tokenize 3 dst = Tokenized 2 [s, bn] out"
  shows "main_cp_upload_file p dst = Storj_upload_file (Some bn) p (basename_spec p)"
  using assms
  by (simp add: main_cp_upload_file_def token_at_def get_filename_separator_basename)

lemma main_cp_three_tokens:
  assumes "strpos dst ''storj://'' = 0" "length (tokens_of dst ''/'') = 3"
  shows "main_cp_upload_file p dst = Cp_undefined_behaviour"
  using assms by (simp add: main_cp_upload_file_def validate_cmd_tokenize_def)

section \<open>Upload options (C10)\<close>

text \<open>
  Claim C10. Whenever \<^verbatim>\<open>upload_file\<close> reaches the bridge (the signal handle was
  allocated), it hands the store operation exactly one option record; in it
  \<open>prepare_frame_limit\<close> is 1, \<open>push_frame_limit\<close> is 64 and \<open>push_shard_limit\<close> is 64 when
  the respective environment variable is unset, and erasure coding (\<open>rs\<close>) is off exactly
  when \<^verbatim>\<open>STORJ_REED_SOLOMON\<close> is set to the string \<^verbatim>\<open>false\<close> (so it is on when the
  variable is unset).
\<close>

theorem upload_file_options:
  assumes "sig_malloc_ok w"
  shows "\<exists>opts. store_calls (snd (upload_file bid (Some p) w)) = store_calls w @ [opts]
           \<and> (environ w ''STORJ_PREPARE_FRAME_LIMIT'' = None \<longrightarrow> prepare_frame_limit opts = 1)
           \<and> (environ w ''STORJ_PUSH_FRAME_LIMIT'' = None \<longrightarrow> push_frame_limit opts = 64)
           \<and> (environ w ''STORJ_PUSH_SHARD_LIMIT'' = None \<longrightarrow> push_shard_limit opts = 64)
           \<and> (environ w ''STORJ_REED_SOLOMON'' = None \<longrightarrow> rs opts)
           \<and> (\<not> rs opts \<longleftrightarrow> environ w ''STORJ_REED_SOLOMON'' = Some ''false'')"
  using assms
  by (cases "bridge_handle w")
     (auto simp: upload_file_def store_calls_def List.map_filter_def emit_def Let_def
           split: option.splits)

theorem upload_file_options_witness:
  "sig_malloc_ok (initial_world Map.empty [] Map.empty)
   \<and> (\<exists>opts. store_calls (snd (upload_file (Some ''b1'') (Some ''/d/a.txt'')
                                (initial_world Map.empty [] Map.empty))) = [opts]
          \<and> prepare_frame_limit opts = 1 \<and> push_frame_limit opts = 64
          \<and> push_shard_limit opts = 64 \<and> rs opts)"
  using upload_file_options [of "initial_world Map.empty [] Map.empty" "Some ''b1''" "''/d/a.txt''"]
  by (simp add: initial_world_def store_calls_def List.map_filter_def)

section \<open>The tokenizer and a prefix that is not at the start (C5)\<close>

text \<open>
  Claim C5 says that every input without \<^verbatim>\<open>storj://\<close> at position 0 is reported as
  invalid. The tokenizer reports it only when the prefix occurs nowhere; when the prefix
  stands at a later position it returns that position as if it were the token count,
  stores no token and prints nothing. Evaluated: with the prefix at offset 2 the result is
  the count 2 with no tokens, the same count as for the valid \<^verbatim>\<open>storj://b\<close>.
\<close>

theorem tokenizer_returns_offset_as_count:
  "validate_cmd_tokenize 10 ''xxstorj://b'' = Tokenized 2 [] []
   \<and> validate_cmd_tokenize 10 ''storj://b'' = Tokenized 2 [''storj:'', ''b''] []"
  by (simp add: validate_cmd_tokenize_def strpos_def tokens_of.simps strtok_def)

section \<open>A download whose file is not in the listing (C3)\<close>

text \<open>
  Claim C3 says that a \<^verbatim>\<open>download-file\<close> for a name absent from the bucket's listing is
  reported and never reaches the executor. Evaluated on the bucket \<^verbatim>\<open>mybucket\<close> whose
  listing holds only \<^verbatim>\<open>other.txt\<close>: the listing callback leaves \<^verbatim>\<open>file_id\<close> at
  \<^verbatim>\<open>NULL\<close> and still queues the download, so \<^verbatim>\<open>download_file\<close> runs and calls the
  bridge's resolve operation with a \<^verbatim>\<open>NULL\<close> file id; nothing is reported, the process
  keeps running and waits for that transfer.
\<close>

theorem download_absent_file_reaches_resolve:
  "(let w = run (snd (cli_download_file (Some ''/tmp/report.pdf'') ''storj://mybucket/report.pdf''
                        (initial_world Map.empty [] Map.empty)))
                [Get_buckets_done 200 [Bucket_meta ''b1'' ''mybucket''],
                 List_files_done 200 [File_meta ''f1'' ''other.txt'']]
    in effects w =
         [Bridge_get_buckets, Printf (Bucket_listing ''b1'' ''mybucket''),
          Bridge_list_files (Some ''b1''),
          Enter_download_file (Some ''b1'') None (Some ''/tmp/report.pdf''),
          Bridge_resolve_file (Some ''b1'') None (Some ''/tmp/report.pdf'')]
       \<and> proc w = Running \<and> pending w = [Resolve_file_op])"
  by code_simp

section \<open>Declining to overwrite the destination (C7)\<close>

text \<open>
  Claim C7 says that the process exits with status 1 when the user declines to overwrite
  an existing destination. Evaluated on a \<^verbatim>\<open>download-file\<close> of \<^verbatim>\<open>report.pdf\<close> to an
  existing path with the answer \<^verbatim>\<open>n\<close>: \<^verbatim>\<open>download_file\<close> asks once, prints that it
  cancelled and returns 1 without calling the resolve operation, but
  \<^verbatim>\<open>queue_next_cli_cmd\<close> drops that value: no \<^verbatim>\<open>exit\<close> is reached, the process is
  still running with nothing pending.
\<close>

theorem declined_overwrite_does_not_exit:
  "(let w0 = snd (cli_download_file (Some ''/tmp/report.pdf'') ''storj://mybucket/report.pdf''
                    (initial_world [''/tmp/report.pdf'' \<mapsto> Regular ''old'']
                       [''n'' @ [newline]] Map.empty));
        w1 = run w0 [Get_buckets_done 200 [Bucket_meta ''b1'' ''mybucket'']];
        w = run w1 [List_files_done 200 [File_meta ''f1'' ''report.pdf'']]
    in effects w =
         [Bridge_get_buckets, Printf (Bucket_listing ''b1'' ''mybucket''),
          Bridge_list_files (Some ''b1''),
          Enter_download_file (Some ''b1'') (Some ''f1'') (Some ''/tmp/report.pdf''),
          Printf (File_already_exists ''/tmp/report.pdf''),
          Printf (Overwrite_prompt ''/tmp/report.pdf''),
          Printf (Canceled_overwriting ''/tmp/report.pdf'')]
       \<and> fst (download_file (Some ''b1'') (Some ''f1'') (Some ''/tmp/report.pdf'') w1) = 1
       \<and> resolve_calls w = []
       \<and> proc w = Running \<and> pending w = [])"
  by code_simp

section \<open>The bucket resolver (C4)\<close>





section \<open>The name of a single uploaded file (C9)\<close>

text \<open>
  Claim C9 says that a single-file upload whose destination has two tokens, or three
  with the file name \<^verbatim>\<open>.\<close>, is stored under the file name of the local path. The name
  is chosen in the \<^verbatim>\<open>cp\<close> branch of \<^verbatim>\<open>main\<close>, which tokenizes the destination into
  \<^verbatim>\<open>char *token[0x03]\<close>. Evaluated on \<^verbatim>\<open>storj://docs/.\<close>: the tokenizer stores three
  tokens and then the final \<^verbatim>\<open>NULL\<close> at \<^verbatim>\<open>token[3]\<close>, outside the array, so the
  branch is in undefined behaviour before any name is chosen. The same destination fits
  the ten entries of \<^verbatim>\<open>cli_upload_file\<close>, and the two-token destination
  \<^verbatim>\<open>storj://docs/\<close> fits the three of \<^verbatim>\<open>main\<close> and gets the name \<^verbatim>\<open>a.txt\<close>.
\<close>

theorem cp_dot_destination_overruns_tokens:
  "validate_cmd_tokenize 3 ''storj://docs/.'' = Token_overrun
   \<and> main_cp_upload_file ''/home/u/a.txt'' ''storj://docs/.'' = Cp_undefined_behaviour
   \<and> validate_cmd_tokenize 10 ''storj://docs/.'' = Tokenized 3 [''storj:'', ''docs'', ''.''] []
   \<and> main_cp_upload_file ''/home/u/a.txt'' ''storj://docs/''
       = Storj_upload_file (Some ''docs'') ''/home/u/a.txt'' ''a.txt''"
  by (simp add: main_cp_upload_file_def validate_cmd_tokenize_def strpos_def tokens_of.simps
        strtok_def token_at_def get_filename_separator_def)

section \<open>A list file beyond the line buffer, and an empty one (C1)\<close>

text \<open>
  Claim C1 speaks of every batch of N items. The list file is read into
  \<^verbatim>\<open>char line[256][256]\<close>, one row per line. Evaluated on two list files. With 257
  lines (a directory of 257 files) the counting loop of \<^verbatim>\<open>cli_upload_file\<close> stores the
  last line outside the array: undefined behaviour before a bucket is even requested,
  instead of 257 executor calls. With no line (an empty directory) both counters are 0,
  which is the state of a single-file upload; after the bucket is resolved the queue
  manager finds \<^verbatim>\<open>0 <= 0\<close>, reads \<^verbatim>\<open>line[-1]\<close> and goes on to \<^verbatim>\<open>upload_file\<close> with a
  \<^verbatim>\<open>NULL\<close> path: undefined behaviour instead of termination without an executor call.
\<close>

theorem upload_list_outside_buffer:
  "(let w0 = initial_world
               [''/pwd/output.txt'' \<mapsto> Regular (list_content (replicate 257 ''/d/f''))]
               [] Map.empty;
        w = snd (cli_upload_file CLI_VALID_DIR (Some ''/pwd/output.txt'') ''/d'' ''storj://docs'' w0)
    in proc w = Undefined_behaviour \<and> effects w = [])
   \<and> (let w0 = initial_world [''/pwd/output.txt'' \<mapsto> Regular []] [] Map.empty;
           w1 = snd (cli_upload_file CLI_VALID_DIR (Some ''/pwd/output.txt'') ''/d''
                       ''storj://docs'' w0);
           w = run w1 [Get_buckets_done 200 [Bucket_meta ''b1'' ''docs'']]
       in total_files (cli w1) = 0 \<and> curr_up_file (cli w1) = 0
          \<and> proc w = Undefined_behaviour \<and> executor_calls w = [])"
proof -
  have rl: "read_lines 65536 (list_content (replicate 257 ''/d/f''))
              = map (\<lambda>l. l @ [newline]) (replicate 257 ''/d/f'')"
    by (rule read_lines_list_content) simp
  have "count_list_lines 0 (map (\<lambda>l. l @ [newline]) (replicate 257 ''/d/f'')) = None"
    by (rule count_list_lines_overrun) simp_all
  with rl have c:
    "count_list_lines 0 (read_lines 65536 (list_content (replicate 257 ''/d/f''))) = None"
    by simp
  have big: "(let w0 = initial_world
               [''/pwd/output.txt'' \<mapsto> Regular (list_content (replicate 257 ''/d/f''))]
               [] Map.empty;
        w = snd (cli_upload_file CLI_VALID_DIR (Some ''/pwd/output.txt'') ''/d'' ''storj://docs'' w0)
    in proc w = Undefined_behaviour \<and> effects w = [])"
    by (simp add: cli_upload_file_def initial_world_def c undefined_behaviour_def Let_def)
  have empty: "(let w0 = initial_world [''/pwd/output.txt'' \<mapsto> Regular []] [] Map.empty;
           w1 = snd (cli_upload_file CLI_VALID_DIR (Some ''/pwd/output.txt'') ''/d''
                       ''storj://docs'' w0);
           w = run w1 [Get_buckets_done 200 [Bucket_meta ''b1'' ''docs'']]
       in total_files (cli w1) = 0 \<and> curr_up_file (cli w1) = 0
          \<and> proc w = Undefined_behaviour \<and> executor_calls w = [])"
    by (simp add: cli_upload_file_def initial_world_def read_lines_Nil Let_def
          validate_cmd_tokenize_def strpos_def tokens_of.simps strtok_def token_at_def
          emits_def request_bucket_id_def bridge_get_buckets_def emit_def initial_cli_state_def
          run_def step_def take_op_def get_bucket_id_callback_def queue_next_cli_cmd_def
          queue_upload_def fopen_r_def undefined_behaviour_def executor_calls_def)
  from big empty show ?thesis ..
qed

section \<open>A failed transfer does not stop the batch (C6)\<close>



section \<open>The interrupt signal during a batch (C2)\<close>




section \<open>Reading back the list of files to download (C8)\<close>

text \<open>
  Claim C8 says that the items written to the list file are read back unchanged and in
  order. Evaluated on a wildcard download from a bucket that holds one file, whose name
  is \<^verbatim>\<open>a:b.txt\<close>: the listing callback writes the line \<^verbatim>\<open>f1:a:b.txt\<close>; the queue manager
  splits the line at every colon and takes the second token for the name, so the item
  read back is \<open>(f1, a)\<close> and the download goes to \<^verbatim>\<open>/tmp/a\<close>.
\<close>

theorem colon_in_file_name:
  "(let w0 = initial_world [''/tmp/'' \<mapsto> Directory] [] Map.empty;
        w = run (snd (cli_download_file (Some ''/tmp/'') ''storj://docs/*'' w0))
              [Get_buckets_done 200 [Bucket_meta ''b1'' ''docs''],
               List_files_done 200 [File_meta ''f1'' ''a:b.txt'']]
    in fs w dwnld_list = Some (Regular (list_content [''f1:a:b.txt'']))
       \<and> executor_calls w
           = [Enter_download_file (Some ''b1'') (Some ''f1'') (Some ''/tmp/a'')]
       \<and> proc w = Running)"
proof -
  let ?w0 = "initial_world [''/tmp/'' \<mapsto> Directory] [] Map.empty"
  have h: "cli ?w0 = initial_cli_state" "proc ?w0 = Running" "pending ?w0 = []"
    "fs ?w0 ''/tmp/'' = Some Directory"
    by (simp_all add: initial_world_def)
  have o: "token_at [''storj:'', ''docs'', ''*''] 1 = Some ''docs''"
    "token_at [''storj:'', ''docs'', ''*''] 2 = Some ''*''"
    "find (\<lambda>b. bucket_meta_name b = ''docs'') [Bucket_meta ''b1'' ''docs'']
       = Some (Bucket_meta ''b1'' ''docs'')"
    "[File_meta ''f1'' ''a:b.txt''] \<noteq> []"
    "\<forall>f\<in>set [File_meta ''f1'' ''a:b.txt'']. file_meta_filename f \<noteq> ''*''"
    "can_create dwnld_list ?w0"
    by (simp_all add: token_at_def can_create_def initial_world_def)
  from wildcard_listing_run [OF h tokenize_docs(2) o, of 200] obtain q where
    r: "run (snd (cli_download_file (Some ''/tmp/'') ''storj://docs/*'' ?w0))
          [Get_buckets_done 200 [Bucket_meta ''b1'' ''docs''],
           List_files_done 200 [File_meta ''f1'' ''a:b.txt'']] = queue_next_cli_cmd q"
    and q: "fs q = (fs ?w0)(dwnld_list \<mapsto>
                     Regular (list_content (map encode_item [File_meta ''f1'' ''a:b.txt''])))"
      "curr_cmd_req (cli q) = Some ''download-file''"
      "next_cmd_req (cli q) = Some ''download-file-1''"
      "file_path (cli q) = Some ''/tmp/''"
      "bucket_id (cli q) = Some (bucket_meta_id (Bucket_meta ''b1'' ''docs''))"
      "total_files (cli q) = int (length [File_meta ''f1'' ''a:b.txt''])"
      "curr_up_file (cli q) = 1"
      "proc q = Running" "pending q = []"
      "executor_calls q = executor_calls ?w0"
      "unwritable q = unwritable ?w0" "stdin_lines q = stdin_lines ?w0"
      "sig_malloc_ok q = sig_malloc_ok ?w0" "bridge_handle q = bridge_handle ?w0"
    by blast
  have enc: "map encode_item [File_meta ''f1'' ''a:b.txt''] = [''f1:a:b.txt'']"
    by (simp add: encode_item_def)
  have rl: "read_lines 65536 (list_content [''f1:a:b.txt'']) = [''f1:a:b.txt'' @ [newline]]"
    using read_lines_list_content [of "[''f1:a:b.txt'']"] by simp
  have rll: "read_list_lines 1 0 [''f1:a:b.txt'' @ [newline]] = Some [''f1:a:b.txt'']"
    using read_list_lines_map [of "[''f1:a:b.txt'']" 0 1] by simp
  have rd: "read_list_lines 1 0 (read_lines 65536 (list_content [''f1:a:b.txt'']))
              = Some [''f1:a:b.txt'']"
    by (simp only: rl rll)
  have tk: "tokens_of ''f1:a:b.txt'' '':'' = [''f1'', ''a'', ''b.txt'']"
    by (simp add: tokens_of.simps strtok_def)
  have ec: "executor_calls ?w0 = []"
    by (simp add: executor_calls_def initial_world_def)
  show ?thesis
    unfolding Let_def r
    using q [unfolded enc] ec
    by (simp add: queue_next_cli_cmd_def queue_download_def fopen_r_def rd tk token_at_def
          download_file_def download_resolve_def can_create_def truncate_file_def emit_def
          executor_calls_def initial_world_def Let_def)
qed

end
